theory Spec2Isabelle
  imports Main "HOL-Library.Char_ord" "HOL-Library.List_Lexorder"
begin

section \<open>Object-centric event data: the event-application engine of OCED.py\<close>

text \<open>
  The development embeds the core of \<^verbatim>\<open>OCED.py\<close>: the twelve qualifier classes with
  their \<^verbatim>\<open>__update_current_state\<close> and \<^verbatim>\<open>__update_tables\<close> methods, the class
  \<^verbatim>\<open>Event\<close> with \<^verbatim>\<open>__precondition\<close>, \<^verbatim>\<open>__execute\<close> and \<^verbatim>\<open>__log\<close>, and the class
  \<^verbatim>\<open>OCED\<close> with \<^verbatim>\<open>insert_event\<close>.

  Python mutates dictionaries and data frames in place and signals failure by raising.
  Here every method takes the state it works on and returns an \<open>outcome\<close>: either
  \<open>Done s\<close>, the state after a normal return, or \<open>Raised err s\<close>, the exception
  together with the state as the statements executed before the raise have left it.
\<close>

subsection \<open>Exceptions and outcomes\<close>

datatype error = ValueError | AttributeError | KeyError | TypeError

datatype 's outcome = Done 's | Raised error 's

fun is_Raised :: "'s outcome \<Rightarrow> bool" where
  "is_Raised (Done s) = False"
| "is_Raised (Raised err s) = True"

fun state_after :: "'s outcome \<Rightarrow> 's" where
  "state_after (Done s) = s"
| "state_after (Raised err s) = s"

text \<open>
  Every precondition check of a qualifier has the shape
  \<^verbatim>\<open>raise ValueError(f'{self.__object_id} must ... before execute {self.__name__} qualifier at index {qualifier_index}')\<close>.
  The argument of \<^verbatim>\<open>ValueError\<close> is evaluated first. The identifier \<^verbatim>\<open>__name__\<close> ends in
  two underscores, so it is not name-mangled, and it is looked up on the qualifier
  instance. Classes have a \<^verbatim>\<open>__name__\<close>, their instances do not (the constructors use
  \<^verbatim>\<open>self.__class__.__name__\<close> for that reason), and no class of the file defines one: the
  lookup raises \<^verbatim>\<open>AttributeError\<close> before any \<^verbatim>\<open>ValueError\<close> object is built. The
  exception leaving such a statement is therefore the one below.
\<close>

definition raise_ValueError_naming_qualifier :: error where
  "raise_ValueError_naming_qualifier = AttributeError"

subsection \<open>The current state\<close>

text \<open>
  \<^verbatim>\<open>current_state\<close> is a dictionary of three dictionaries keyed by id; the records below
  are the inner dictionaries (\<^verbatim>\<open>'type'\<close>, \<^verbatim>\<open>'existency'\<close>, ...).
\<close>

record object_state =
  obj_type :: string
  obj_existency :: bool
  object_relation_ids :: "string list"
  object_attribute_value_ids :: "string list"

record object_relation_state =
  rel_type :: string
  rel_existency :: bool
  rel_from_object_id :: string
  rel_to_object_id :: string

record object_attribute_value_state =
  oav_name :: string
  oav_value :: string
  oav_existency :: bool
  oav_object_id :: string

record current_state =
  cs_object :: "string \<rightharpoonup> object_state"
  cs_object_relation :: "string \<rightharpoonup> object_relation_state"
  cs_object_attribute_value :: "string \<rightharpoonup> object_attribute_value_state"

text \<open>\<^verbatim>\<open>involved_ids\<close>: a dictionary of three sets, fresh for every pass over an event.\<close>

record involved_ids =
  inv_object :: "string set"
  inv_object_relation :: "string set"
  inv_object_attribute_value :: "string set"

definition empty_involved_ids :: involved_ids where
  "empty_involved_ids =
     \<lparr>inv_object = {}, inv_object_relation = {}, inv_object_attribute_value = {}\<rparr>"

subsection \<open>Qualifiers\<close>

datatype qualifier_type = CREATE | DELETE | MODIFY | INVOLVE

text \<open>
  One constructor per qualifier class, carrying the constructor arguments in the order
  of \<^verbatim>\<open>__init__\<close>. All arguments are strings (\<^verbatim>\<open>__init__\<close> raises \<^verbatim>\<open>TypeError\<close> otherwise).
\<close>

datatype qualifier =
    create_object string string
  | create_object_relation string string string string
  | create_object_attribute_value string string string string
  | delete_object string
  | delete_object_relation string
  | delete_object_attribute_value string
  | modify_object string string
  | modify_object_relation string string
  | modify_object_attribute_value string string
  | involve_object string
  | involve_object_relation string
  | involve_object_attribute_value string

fun qualifier_type_of :: "qualifier \<Rightarrow> qualifier_type" where
  "qualifier_type_of (create_object i t) = CREATE"
| "qualifier_type_of (create_object_relation i f t ty) = CREATE"
| "qualifier_type_of (create_object_attribute_value i ob n v) = CREATE"
| "qualifier_type_of (delete_object i) = DELETE"
| "qualifier_type_of (delete_object_relation i) = DELETE"
| "qualifier_type_of (delete_object_attribute_value i) = DELETE"
| "qualifier_type_of (modify_object i t) = MODIFY"
| "qualifier_type_of (modify_object_relation i t) = MODIFY"
| "qualifier_type_of (modify_object_attribute_value i v) = MODIFY"
| "qualifier_type_of (involve_object i) = INVOLVE"
| "qualifier_type_of (involve_object_relation i) = INVOLVE"
| "qualifier_type_of (involve_object_attribute_value i) = INVOLVE"

text \<open>
  \<^verbatim>\<open>create_object_relation.__init__\<close> raises \<^verbatim>\<open>ValueError\<close> when
  \<^verbatim>\<open>from_object_id == to_object_id\<close>; the other constructors accept every string.
\<close>

fun constructible :: "qualifier \<Rightarrow> bool" where
  "constructible (create_object_relation i f t ty) = (f \<noteq> t)"
| "constructible q = True"

subsection \<open>\<^verbatim>\<open>__update_current_state\<close>\<close>

text \<open>The two loops of \<^verbatim>\<open>delete_object.__update_current_state\<close> over the back-reference lists.\<close>

fun cascade_object_relations ::
  "string list \<Rightarrow> current_state \<Rightarrow> involved_ids \<Rightarrow> (current_state \<times> involved_ids) outcome" where
  "cascade_object_relations [] c ids = Done (c, ids)"
| "cascade_object_relations (r # rs) c ids =
     (case cs_object_relation c r of
        None \<Rightarrow> Raised KeyError (c, ids)
      | Some rel \<Rightarrow>
          if rel_existency rel = False then cascade_object_relations rs c ids
          else cascade_object_relations rs
                 (c\<lparr>cs_object_relation := (cs_object_relation c)(r \<mapsto> rel\<lparr>rel_existency := False\<rparr>)\<rparr>)
                 (ids\<lparr>inv_object_relation := insert r (inv_object_relation ids)\<rparr>))"

fun cascade_object_attribute_values ::
  "string list \<Rightarrow> current_state \<Rightarrow> involved_ids \<Rightarrow> (current_state \<times> involved_ids) outcome" where
  "cascade_object_attribute_values [] c ids = Done (c, ids)"
| "cascade_object_attribute_values (a # avs) c ids =
     (case cs_object_attribute_value c a of
        None \<Rightarrow> Raised KeyError (c, ids)
      | Some av \<Rightarrow>
          if oav_existency av = False then cascade_object_attribute_values avs c ids
          else cascade_object_attribute_values avs
                 (c\<lparr>cs_object_attribute_value :=
                      (cs_object_attribute_value c)(a \<mapsto> av\<lparr>oav_existency := False\<rparr>)\<rparr>)
                 (ids\<lparr>inv_object_attribute_value := insert a (inv_object_attribute_value ids)\<rparr>))"

text \<open>Membership and liveness test shared by the delete, modify and involve qualifiers:
  \<^verbatim>\<open>id not in current_state[kind] or current_state[kind][id]['existency'] == False\<close>.\<close>

definition object_missing_or_dead :: "current_state \<Rightarrow> string \<Rightarrow> bool" where
  "object_missing_or_dead c i =
     (case cs_object c i of None \<Rightarrow> True | Some ob \<Rightarrow> obj_existency ob = False)"

definition object_relation_missing_or_dead :: "current_state \<Rightarrow> string \<Rightarrow> bool" where
  "object_relation_missing_or_dead c i =
     (case cs_object_relation c i of None \<Rightarrow> True | Some rel \<Rightarrow> rel_existency rel = False)"

definition object_attribute_value_missing_or_dead :: "current_state \<Rightarrow> string \<Rightarrow> bool" where
  "object_attribute_value_missing_or_dead c i =
     (case cs_object_attribute_value c i of None \<Rightarrow> True | Some av \<Rightarrow> oav_existency av = False)"

text \<open>\<^verbatim>\<open>current_state['object'][object_id]['object_relation_ids'].append(rid)\<close>:
  \<^verbatim>\<open>KeyError\<close> when the object is not in the dictionary.\<close>

definition append_object_relation_id ::
  "string \<Rightarrow> string \<Rightarrow> current_state \<Rightarrow> current_state outcome" where
  "append_object_relation_id oid rid c =
     (case cs_object c oid of
        None \<Rightarrow> Raised KeyError c
      | Some ob \<Rightarrow> Done (c\<lparr>cs_object := (cs_object c)
                   (oid \<mapsto> ob\<lparr>object_relation_ids := object_relation_ids ob @ [rid]\<rparr>)\<rparr>))"

definition append_object_attribute_value_id ::
  "string \<Rightarrow> string \<Rightarrow> current_state \<Rightarrow> current_state outcome" where
  "append_object_attribute_value_id oid aid c =
     (case cs_object c oid of
        None \<Rightarrow> Raised KeyError c
      | Some ob \<Rightarrow> Done (c\<lparr>cs_object := (cs_object c)
                   (oid \<mapsto> ob\<lparr>object_attribute_value_ids := object_attribute_value_ids ob @ [aid]\<rparr>)\<rparr>))"

text \<open>
  The method of each class, in the order of the file. The argument \<^verbatim>\<open>qualifier_index\<close>
  occurs in the error messages only and is left out.
\<close>

fun update_current_state ::
  "qualifier \<Rightarrow> current_state \<Rightarrow> involved_ids \<Rightarrow> (current_state \<times> involved_ids) outcome" where
  "update_current_state (create_object object_id object_type) c ids =
     (if object_id \<in> dom (cs_object c) then Raised raise_ValueError_naming_qualifier (c, ids)
      else Done
        (c\<lparr>cs_object := (cs_object c)(object_id \<mapsto>
              \<lparr>obj_type = object_type, obj_existency = True,
               object_relation_ids = [], object_attribute_value_ids = []\<rparr>)\<rparr>,
         ids\<lparr>inv_object := insert object_id (inv_object ids)\<rparr>))"
| "update_current_state
     (create_object_relation object_relation_id from_object_id to_object_id object_relation_type) c ids =
     (if object_relation_id \<in> dom (cs_object_relation c)
        then Raised raise_ValueError_naming_qualifier (c, ids)
      else if object_missing_or_dead c to_object_id
        then Raised raise_ValueError_naming_qualifier (c, ids)
      else if object_missing_or_dead c from_object_id
        then Raised raise_ValueError_naming_qualifier (c, ids)
      else
        let c1 = c\<lparr>cs_object_relation := (cs_object_relation c)(object_relation_id \<mapsto>
                     \<lparr>rel_type = object_relation_type, rel_existency = True,
                      rel_from_object_id = from_object_id, rel_to_object_id = to_object_id\<rparr>)\<rparr>
        in case append_object_relation_id from_object_id object_relation_id c1 of
             Raised err c2 \<Rightarrow> Raised err (c2, ids)
           | Done c2 \<Rightarrow>
               (case append_object_relation_id to_object_id object_relation_id c2 of
                  Raised err c3 \<Rightarrow> Raised err (c3, ids)
                | Done c3 \<Rightarrow>
                    Done (c3, ids\<lparr>inv_object_relation :=
                                    insert object_relation_id (inv_object_relation ids)\<rparr>)))"
| "update_current_state
     (create_object_attribute_value object_attribute_value_id object_id
        object_attribute_name object_attribute_value) c ids =
     (if object_attribute_value_id \<in> dom (cs_object_attribute_value c)
        then Raised raise_ValueError_naming_qualifier (c, ids)
      else
        let c1 = c\<lparr>cs_object_attribute_value :=
                     (cs_object_attribute_value c)(object_attribute_value_id \<mapsto>
                       \<lparr>oav_name = object_attribute_name, oav_value = object_attribute_value,
                        oav_existency = True, oav_object_id = object_id\<rparr>)\<rparr>
        in case append_object_attribute_value_id object_id object_attribute_value_id c1 of
             Raised err c2 \<Rightarrow> Raised err (c2, ids)
           | Done c2 \<Rightarrow>
               Done (c2, ids\<lparr>inv_object_attribute_value :=
                               insert object_attribute_value_id (inv_object_attribute_value ids)\<rparr>))"
| "update_current_state (delete_object object_id) c ids =
     (case cs_object c object_id of
        None \<Rightarrow> Raised raise_ValueError_naming_qualifier (c, ids)
      | Some ob \<Rightarrow>
          if obj_existency ob = False then Raised raise_ValueError_naming_qualifier (c, ids)
          else
            let c1 = c\<lparr>cs_object := (cs_object c)(object_id \<mapsto> ob\<lparr>obj_existency := False\<rparr>)\<rparr>;
                ids1 = ids\<lparr>inv_object := insert object_id (inv_object ids)\<rparr>
            in (case cascade_object_relations (object_relation_ids ob) c1 ids1 of
                  Raised err s \<Rightarrow> Raised err s
                | Done s \<Rightarrow>
                    cascade_object_attribute_values (object_attribute_value_ids ob) (fst s) (snd s)))"
| "update_current_state (delete_object_relation object_relation_id) c ids =
     (case cs_object_relation c object_relation_id of
        None \<Rightarrow> Raised raise_ValueError_naming_qualifier (c, ids)
      | Some rel \<Rightarrow>
          if rel_existency rel = False then Raised raise_ValueError_naming_qualifier (c, ids)
          else Done
            (c\<lparr>cs_object_relation :=
                 (cs_object_relation c)(object_relation_id \<mapsto> rel\<lparr>rel_existency := False\<rparr>)\<rparr>,
             ids\<lparr>inv_object_relation := insert object_relation_id (inv_object_relation ids)\<rparr>))"
| "update_current_state (delete_object_attribute_value object_attribute_value_id) c ids =
     (case cs_object_attribute_value c object_attribute_value_id of
        None \<Rightarrow> Raised raise_ValueError_naming_qualifier (c, ids)
      | Some av \<Rightarrow>
          if oav_existency av = False then Raised raise_ValueError_naming_qualifier (c, ids)
          else Done
            (c\<lparr>cs_object_attribute_value :=
                 (cs_object_attribute_value c)
                   (object_attribute_value_id \<mapsto> av\<lparr>oav_existency := False\<rparr>)\<rparr>,
             ids\<lparr>inv_object_attribute_value :=
                   insert object_attribute_value_id (inv_object_attribute_value ids)\<rparr>))"
| "update_current_state (modify_object object_id new_object_type) c ids =
     (case cs_object c object_id of
        None \<Rightarrow> Raised raise_ValueError_naming_qualifier (c, ids)
      | Some ob \<Rightarrow>
          if obj_existency ob = False then Raised raise_ValueError_naming_qualifier (c, ids)
          else if obj_type ob = new_object_type
            then Raised raise_ValueError_naming_qualifier (c, ids)
          else Done
            (c\<lparr>cs_object := (cs_object c)(object_id \<mapsto> ob\<lparr>obj_type := new_object_type\<rparr>)\<rparr>,
             ids\<lparr>inv_object := insert object_id (inv_object ids)\<rparr>))"
| "update_current_state (modify_object_relation object_relation_id new_object_relation_type) c ids =
     (case cs_object_relation c object_relation_id of
        None \<Rightarrow> Raised raise_ValueError_naming_qualifier (c, ids)
      | Some rel \<Rightarrow>
          if rel_existency rel = False then Raised raise_ValueError_naming_qualifier (c, ids)
          else if rel_type rel = new_object_relation_type
            then Raised raise_ValueError_naming_qualifier (c, ids)
          else Done
            (c\<lparr>cs_object_relation := (cs_object_relation c)
                 (object_relation_id \<mapsto> rel\<lparr>rel_type := new_object_relation_type\<rparr>)\<rparr>,
             ids\<lparr>inv_object_relation := insert object_relation_id (inv_object_relation ids)\<rparr>))"
| "update_current_state
     (modify_object_attribute_value object_attribute_value_id new_object_attribute_value) c ids =
     (case cs_object_attribute_value c object_attribute_value_id of
        None \<Rightarrow> Raised raise_ValueError_naming_qualifier (c, ids)
      | Some av \<Rightarrow>
          if oav_existency av = False then Raised raise_ValueError_naming_qualifier (c, ids)
          else if oav_value av = new_object_attribute_value
            then Raised raise_ValueError_naming_qualifier (c, ids)
          else Done
            (c\<lparr>cs_object_attribute_value := (cs_object_attribute_value c)
                 (object_attribute_value_id \<mapsto> av\<lparr>oav_value := new_object_attribute_value\<rparr>)\<rparr>,
             ids\<lparr>inv_object_attribute_value :=
                   insert object_attribute_value_id (inv_object_attribute_value ids)\<rparr>))"
| "update_current_state (involve_object object_id) c ids =
     (if object_missing_or_dead c object_id then Raised raise_ValueError_naming_qualifier (c, ids)
      else if object_id \<in> inv_object ids then Raised raise_ValueError_naming_qualifier (c, ids)
      else Done (c, ids\<lparr>inv_object := insert object_id (inv_object ids)\<rparr>))"
| "update_current_state (involve_object_relation object_relation_id) c ids =
     (if object_relation_missing_or_dead c object_relation_id
        then Raised raise_ValueError_naming_qualifier (c, ids)
      else if object_relation_id \<in> inv_object_relation ids
        then Raised raise_ValueError_naming_qualifier (c, ids)
      else Done (c, ids\<lparr>inv_object_relation :=
                          insert object_relation_id (inv_object_relation ids)\<rparr>))"
| "update_current_state (involve_object_attribute_value object_attribute_value_id) c ids =
     (if object_attribute_value_missing_or_dead c object_attribute_value_id
        then Raised raise_ValueError_naming_qualifier (c, ids)
      else if object_attribute_value_id \<in> inv_object_attribute_value ids
        then Raised raise_ValueError_naming_qualifier (c, ids)
      else Done (c, ids\<lparr>inv_object_attribute_value :=
                          insert object_attribute_value_id (inv_object_attribute_value ids)\<rparr>))"

subsection \<open>The model: history tables, log, current state and event counter\<close>

text \<open>
  Each data frame of \<^verbatim>\<open>OCED.__init__\<close> is the list of its rows in insertion order
  (\<^verbatim>\<open>pd.concat(..., ignore_index=True)\<close> appends), a row being the tuple of its columns
  in the order of the \<^verbatim>\<open>columns=[...]\<close> argument. The one-column tables are lists of
  strings.
\<close>

type_synonym event_row = "nat \<times> string \<times> string"
type_synonym event_attribute_value_row = "nat \<times> string \<times> string"
type_synonym object_row = "string \<times> string \<times> bool"
type_synonym object_relation_row = "string \<times> string \<times> string \<times> string \<times> bool"
type_synonym object_attribute_value_row = "string \<times> string \<times> string \<times> string \<times> bool"
type_synonym junction_row = "nat \<times> string \<times> qualifier_type \<times> nat"
type_synonym log_entry = "string \<times> (string \<times> string) list"

record OCED =
  tbl_event :: "event_row list"
  tbl_event_type :: "string list"
  tbl_event_time :: "string list"
  tbl_event_attribute_name :: "string list"
  tbl_event_attribute_value :: "event_attribute_value_row list"
  tbl_object :: "object_row list"
  tbl_object_type :: "string list"
  tbl_object_attribute_name :: "string list"
  tbl_object_attribute_value :: "object_attribute_value_row list"
  tbl_object_relation :: "object_relation_row list"
  tbl_object_relation_type :: "string list"
  tbl_event_x_object :: "junction_row list"
  tbl_event_x_object_attribute_value :: "junction_row list"
  tbl_event_x_object_relation :: "junction_row list"
  event_log :: "nat \<rightharpoonup> log_entry list"
  current_state :: current_state
  event_counter :: nat

definition OCED_init :: OCED where
  "OCED_init =
     \<lparr>tbl_event = [], tbl_event_type = [], tbl_event_time = [],
      tbl_event_attribute_name = [], tbl_event_attribute_value = [],
      tbl_object = [], tbl_object_type = [], tbl_object_attribute_name = [],
      tbl_object_attribute_value = [], tbl_object_relation = [],
      tbl_object_relation_type = [],
      tbl_event_x_object = [], tbl_event_x_object_attribute_value = [],
      tbl_event_x_object_relation = [],
      event_log = Map.empty,
      current_state = \<lparr>cs_object = Map.empty, cs_object_relation = Map.empty,
                        cs_object_attribute_value = Map.empty\<rparr>,
      event_counter = 0\<rparr>"

subsection \<open>\<^verbatim>\<open>__update_tables\<close>\<close>

text \<open>The statements that recur in the \<^verbatim>\<open>__update_tables\<close> methods: append a row to a
  history table, append a value to a lookup table unless it is there
  (\<^verbatim>\<open>if x not in table[column].values\<close>), append a junction row tagged with the event
  counter.\<close>

definition add_object_row :: "object_row \<Rightarrow> OCED \<Rightarrow> OCED" where
  "add_object_row row m = m\<lparr>tbl_object := tbl_object m @ [row]\<rparr>"

definition add_object_relation_row :: "object_relation_row \<Rightarrow> OCED \<Rightarrow> OCED" where
  "add_object_relation_row row m = m\<lparr>tbl_object_relation := tbl_object_relation m @ [row]\<rparr>"

definition add_object_attribute_value_row :: "object_attribute_value_row \<Rightarrow> OCED \<Rightarrow> OCED" where
  "add_object_attribute_value_row row m =
     m\<lparr>tbl_object_attribute_value := tbl_object_attribute_value m @ [row]\<rparr>"

definition add_object_type :: "string \<Rightarrow> OCED \<Rightarrow> OCED" where
  "add_object_type t m =
     (if t \<notin> set (tbl_object_type m) then m\<lparr>tbl_object_type := tbl_object_type m @ [t]\<rparr>
      else m)"

definition add_object_relation_type :: "string \<Rightarrow> OCED \<Rightarrow> OCED" where
  "add_object_relation_type t m =
     (if t \<notin> set (tbl_object_relation_type m)
        then m\<lparr>tbl_object_relation_type := tbl_object_relation_type m @ [t]\<rparr>
      else m)"

definition add_object_attribute_name :: "string \<Rightarrow> OCED \<Rightarrow> OCED" where
  "add_object_attribute_name n m =
     (if n \<notin> set (tbl_object_attribute_name m)
        then m\<lparr>tbl_object_attribute_name := tbl_object_attribute_name m @ [n]\<rparr>
      else m)"

definition add_event_x_object :: "string \<Rightarrow> qualifier_type \<Rightarrow> nat \<Rightarrow> OCED \<Rightarrow> OCED" where
  "add_event_x_object i qt qualifier_index m =
     m\<lparr>tbl_event_x_object := tbl_event_x_object m @ [(event_counter m, i, qt, qualifier_index)]\<rparr>"

definition add_event_x_object_relation ::
  "string \<Rightarrow> qualifier_type \<Rightarrow> nat \<Rightarrow> OCED \<Rightarrow> OCED" where
  "add_event_x_object_relation i qt qualifier_index m =
     m\<lparr>tbl_event_x_object_relation :=
         tbl_event_x_object_relation m @ [(event_counter m, i, qt, qualifier_index)]\<rparr>"

definition add_event_x_object_attribute_value ::
  "string \<Rightarrow> qualifier_type \<Rightarrow> nat \<Rightarrow> OCED \<Rightarrow> OCED" where
  "add_event_x_object_attribute_value i qt qualifier_index m =
     m\<lparr>tbl_event_x_object_attribute_value :=
         tbl_event_x_object_attribute_value m @ [(event_counter m, i, qt, qualifier_index)]\<rparr>"

text \<open>The two loops of \<^verbatim>\<open>delete_object.__update_tables\<close>: one history row and one
  junction row for every back-referenced relation (attribute value) that is still live.
  The current state is only read.\<close>

fun delete_object_relation_rows :: "string list \<Rightarrow> nat \<Rightarrow> OCED \<Rightarrow> OCED outcome" where
  "delete_object_relation_rows [] qualifier_index m = Done m"
| "delete_object_relation_rows (r # rs) qualifier_index m =
     (case cs_object_relation (current_state m) r of
        None \<Rightarrow> Raised KeyError m
      | Some rel \<Rightarrow>
          if rel_existency rel = False then delete_object_relation_rows rs qualifier_index m
          else delete_object_relation_rows rs qualifier_index
                 (add_event_x_object_relation r DELETE qualifier_index
                   (add_object_relation_row
                     (r, rel_from_object_id rel, rel_to_object_id rel, rel_type rel, False) m)))"

fun delete_object_attribute_value_rows :: "string list \<Rightarrow> nat \<Rightarrow> OCED \<Rightarrow> OCED outcome" where
  "delete_object_attribute_value_rows [] qualifier_index m = Done m"
| "delete_object_attribute_value_rows (a # avs) qualifier_index m =
     (case cs_object_attribute_value (current_state m) a of
        None \<Rightarrow> Raised KeyError m
      | Some av \<Rightarrow>
          if oav_existency av = False then delete_object_attribute_value_rows avs qualifier_index m
          else delete_object_attribute_value_rows avs qualifier_index
                 (add_event_x_object_attribute_value a DELETE qualifier_index
                   (add_object_attribute_value_row
                     (a, oav_object_id av, oav_name av, oav_value av, False) m)))"

fun update_tables :: "qualifier \<Rightarrow> OCED \<Rightarrow> nat \<Rightarrow> OCED outcome" where
  "update_tables (create_object object_id object_type) m qualifier_index =
     Done (add_event_x_object object_id CREATE qualifier_index
            (add_object_type object_type
              (add_object_row (object_id, object_type, True) m)))"
| "update_tables
     (create_object_relation object_relation_id from_object_id to_object_id object_relation_type)
     m qualifier_index =
     Done (add_event_x_object_relation object_relation_id CREATE qualifier_index
            (add_object_relation_type object_relation_type
              (add_object_relation_row
                (object_relation_id, from_object_id, to_object_id, object_relation_type, True) m)))"
| "update_tables
     (create_object_attribute_value object_attribute_value_id object_id
        object_attribute_name object_attribute_value) m qualifier_index =
     Done (add_event_x_object_attribute_value object_attribute_value_id CREATE qualifier_index
            (add_object_attribute_name object_attribute_name
              (add_object_attribute_value_row
                (object_attribute_value_id, object_id, object_attribute_name,
                 object_attribute_value, True) m)))"
| "update_tables (delete_object object_id) m qualifier_index =
     (case cs_object (current_state m) object_id of
        None \<Rightarrow> Raised KeyError m
      | Some ob \<Rightarrow>
          (case delete_object_relation_rows (object_relation_ids ob) qualifier_index
                  (add_event_x_object object_id DELETE qualifier_index
                    (add_object_row (object_id, obj_type ob, False) m)) of
             Raised err m1 \<Rightarrow> Raised err m1
           | Done m1 \<Rightarrow>
               delete_object_attribute_value_rows (object_attribute_value_ids ob)
                 qualifier_index m1))"
| "update_tables (delete_object_relation object_relation_id) m qualifier_index =
     (case cs_object_relation (current_state m) object_relation_id of
        None \<Rightarrow> Raised KeyError m
      | Some rel \<Rightarrow>
          Done (add_event_x_object_relation object_relation_id DELETE qualifier_index
                 (add_object_relation_row
                   (object_relation_id, rel_from_object_id rel, rel_to_object_id rel,
                    rel_type rel, False) m)))"
| "update_tables (delete_object_attribute_value object_attribute_value_id) m qualifier_index =
     (case cs_object_attribute_value (current_state m) object_attribute_value_id of
        None \<Rightarrow> Raised KeyError m
      | Some av \<Rightarrow>
          Done (add_event_x_object_attribute_value object_attribute_value_id DELETE qualifier_index
                 (add_object_attribute_value_row
                   (object_attribute_value_id, oav_object_id av, oav_name av,
                    oav_value av, False) m)))"
| "update_tables (modify_object object_id new_object_type) m qualifier_index =
     Done (add_event_x_object object_id MODIFY qualifier_index
            (add_object_row (object_id, new_object_type, True) m))"
| "update_tables (modify_object_relation object_relation_id new_object_relation_type)
     m qualifier_index =
     (case cs_object_relation (current_state m) object_relation_id of
        None \<Rightarrow> Raised KeyError m
      | Some rel \<Rightarrow>
          Done (add_event_x_object_relation object_relation_id MODIFY qualifier_index
                 (add_object_relation_row
                   (object_relation_id, rel_from_object_id rel, rel_to_object_id rel,
                    new_object_relation_type, True) m)))"
| "update_tables
     (modify_object_attribute_value object_attribute_value_id new_object_attribute_value)
     m qualifier_index =
     (case cs_object_attribute_value (current_state m) object_attribute_value_id of
        None \<Rightarrow> Raised KeyError m
      | Some av \<Rightarrow>
          Done (add_event_x_object_attribute_value object_attribute_value_id MODIFY qualifier_index
                 (add_object_attribute_value_row
                   (object_attribute_value_id, oav_object_id av, oav_name av,
                    new_object_attribute_value, True) m)))"
| "update_tables (involve_object object_id) m qualifier_index =
     Done (add_event_x_object object_id INVOLVE qualifier_index m)"
| "update_tables (involve_object_relation object_relation_id) m qualifier_index =
     Done (add_event_x_object_relation object_relation_id INVOLVE qualifier_index m)"
| "update_tables (involve_object_attribute_value object_attribute_value_id) m qualifier_index =
     Done (add_event_x_object_attribute_value object_attribute_value_id INVOLVE qualifier_index m)"

subsection \<open>\<^verbatim>\<open>__log\<close> of the qualifiers\<close>

fun qualifier_log :: "qualifier \<Rightarrow> log_entry" where
  "qualifier_log (create_object i t) =
     (''create_object'', [(''object_id'', i), (''object_type'', t)])"
| "qualifier_log (create_object_relation i f t ty) =
     (''create_object_relation'',
      [(''object_relation_id'', i), (''from_object_id'', f), (''to_object_id'', t),
       (''object_relation_type'', ty)])"
| "qualifier_log (create_object_attribute_value i ob n v) =
     (''create_object_attribute_value'',
      [(''object_attribute_value_id'', i), (''object_id'', ob),
       (''object_attribute_name'', n), (''object_attribute_value'', v)])"
| "qualifier_log (delete_object i) = (''delete_object'', [(''object_id'', i)])"
| "qualifier_log (delete_object_relation i) =
     (''delete_object_relation'', [(''object_relation_id'', i)])"
| "qualifier_log (delete_object_attribute_value i) =
     (''delete_object_attribute_value'', [(''object_attribute_value_id'', i)])"
| "qualifier_log (modify_object i t) =
     (''modify_object'', [(''object_id'', i), (''new_object_type'', t)])"
| "qualifier_log (modify_object_relation i t) =
     (''modify_object_relation'',
      [(''object_relation_id'', i), (''new_object_relation_type'', t)])"
| "qualifier_log (modify_object_attribute_value i v) =
     (''modify_object_attribute_value'',
      [(''object_attribute_value_id'', i), (''new_object_attribute_value'', v)])"
| "qualifier_log (involve_object i) = (''involve_object'', [(''object_id'', i)])"
| "qualifier_log (involve_object_relation i) =
     (''involve_object_relation'', [(''object_relation_id'', i)])"
| "qualifier_log (involve_object_attribute_value i) =
     (''involve_object_attribute_value'', [(''object_attribute_value_id'', i)])"

subsection \<open>Events\<close>

text \<open>
  \<^verbatim>\<open>Event.__init__\<close> replaces \<^verbatim>\<open>event_time\<close> by
  \<^verbatim>\<open>datetime.fromtimestamp(datetime.fromisoformat(event_time).timestamp()).isoformat()\<close>;
  the field below is that normalised string. \<^verbatim>\<open>event_attributes\<close> is a dictionary
  from strings to strings, here the list of its items in the dictionary's order; a
  dictionary holds every key once.
\<close>

record Event =
  event_time :: string
  event_type :: string
  qualifiers :: "qualifier list"
  event_attributes :: "(string \<times> string) list"

definition event_attributes_is_dict :: "Event \<Rightarrow> bool" where
  "event_attributes_is_dict e = distinct (map fst (event_attributes e))"

text \<open>
  \<^verbatim>\<open>OCED_model._OCED__event_time['event_time'].max()\<close>: the greatest string of the column,
  Python comparing strings lexicographically by code point; on the empty column the result
  is not a string (\<open>None\<close> here) and the test \<^verbatim>\<open>isinstance(max_time, str)\<close> fails.
\<close>

definition max_time :: "string list \<Rightarrow> string option" where
  "max_time ts = (case ts of [] \<Rightarrow> None | t # ts' \<Rightarrow> Some (fold max ts' t))"

text \<open>The loop of \<^verbatim>\<open>Event.__precondition\<close> over the qualifiers, on the copied state.\<close>

fun precondition_loop ::
  "qualifier list \<Rightarrow> current_state \<Rightarrow> involved_ids \<Rightarrow> (current_state \<times> involved_ids) outcome" where
  "precondition_loop [] c ids = Done (c, ids)"
| "precondition_loop (q # qs) c ids =
     (case update_current_state q c ids of
        Raised err s \<Rightarrow> Raised err s
      | Done s \<Rightarrow> precondition_loop qs (fst s) (snd s))"

text \<open>
  \<^verbatim>\<open>Event.__precondition\<close>. The method works on \<^verbatim>\<open>deepcopy(OCED_model._OCED__current_state)\<close>
  and on a fresh \<^verbatim>\<open>involved_ids\<close>, both local; it returns nothing. The outcome here
  carries these two locals as the method leaves them, so that the state computed by the
  validation pass can be named. The model itself is only read.
\<close>

definition precondition :: "OCED \<Rightarrow> Event \<Rightarrow> (current_state \<times> involved_ids) outcome" where
  "precondition m e =
     (case max_time (tbl_event_time m) of
        None \<Rightarrow> precondition_loop (qualifiers e) (current_state m) empty_involved_ids
      | Some mt \<Rightarrow>
          if mt \<ge> event_time e then Raised ValueError (current_state m, empty_involved_ids)
          else precondition_loop (qualifiers e) (current_state m) empty_involved_ids)"

text \<open>The loop of \<^verbatim>\<open>Event.__execute\<close>: for every qualifier first \<^verbatim>\<open>__update_tables\<close>, then
  \<^verbatim>\<open>__update_current_state\<close> on the model's own current state.\<close>

fun execute_loop ::
  "qualifier list \<Rightarrow> nat \<Rightarrow> OCED \<Rightarrow> involved_ids \<Rightarrow> (OCED \<times> involved_ids) outcome" where
  "execute_loop [] qualifier_index m ids = Done (m, ids)"
| "execute_loop (q # qs) qualifier_index m ids =
     (case update_tables q m qualifier_index of
        Raised err m1 \<Rightarrow> Raised err (m1, ids)
      | Done m1 \<Rightarrow>
          (case update_current_state q (current_state m1) ids of
             Raised err s \<Rightarrow> Raised err (m1\<lparr>current_state := fst s\<rparr>, snd s)
           | Done s \<Rightarrow>
               execute_loop qs (Suc qualifier_index) (m1\<lparr>current_state := fst s\<rparr>) (snd s)))"

text \<open>The table updates of \<^verbatim>\<open>Event.__execute\<close> that precede the loop.\<close>

definition execute_event_tables :: "OCED \<Rightarrow> Event \<Rightarrow> OCED" where
  "execute_event_tables m e =
     (let m1 = m\<lparr>tbl_event := tbl_event m @ [(event_counter m, event_type e, event_time e)]\<rparr>;
          m2 = (if \<not> event_type e \<in> set (tbl_event_type m1)
                  then m1\<lparr>tbl_event_type := tbl_event_type m1 @ [event_type e]\<rparr> else m1);
          m3 = m2\<lparr>tbl_event_time := tbl_event_time m2 @ [event_time e]\<rparr>;
          existing_event_attribute_names = tbl_event_attribute_name m3;
          m4 = m3\<lparr>tbl_event_attribute_name := tbl_event_attribute_name m3 @
                  filter (\<lambda>n. \<not> n \<in> set existing_event_attribute_names)
                    (map fst (event_attributes e))\<rparr>
      in m4\<lparr>tbl_event_attribute_value := tbl_event_attribute_value m4 @
                map (\<lambda>(n, v). (event_counter m4, n, v)) (event_attributes e)\<rparr>)"

definition execute :: "OCED \<Rightarrow> Event \<Rightarrow> OCED outcome" where
  "execute m e =
     (case execute_loop (qualifiers e) 0 (execute_event_tables m e) empty_involved_ids of
        Raised err s \<Rightarrow> Raised err (fst s)
      | Done s \<Rightarrow> Done (fst s))"

text \<open>\<^verbatim>\<open>Event.__log\<close>.\<close>

definition log_event :: "OCED \<Rightarrow> Event \<Rightarrow> OCED" where
  "log_event m e = m\<lparr>event_log := (event_log m)(event_counter m \<mapsto> map qualifier_log (qualifiers e))\<rparr>"

subsection \<open>\<^verbatim>\<open>OCED.insert_event\<close>\<close>

text \<open>
  The argument is an \<open>Event\<close> by its type, so the \<^verbatim>\<open>TypeError\<close> of the first test cannot
  arise. An exception raised by \<^verbatim>\<open>__precondition\<close> leaves the method before anything of
  the model has been written: the copy is dropped and the model is the one passed in.
\<close>

definition insert_event :: "OCED \<Rightarrow> Event \<Rightarrow> OCED outcome" where
  "insert_event m e =
     (case precondition m e of
        Raised err s \<Rightarrow> Raised err m
      | Done s \<Rightarrow>
          (case execute m e of
             Raised err m1 \<Rightarrow> Raised err m1
           | Done m1 \<Rightarrow>
               (let m2 = log_event m1 e in Done (m2\<lparr>event_counter := event_counter m2 + 1\<rparr>))))"

text \<open>A caller submitting events one after the other, going on after a rejection with
  the model as the failed call has left it; and the number of calls that returned.\<close>

fun insert_events :: "OCED \<Rightarrow> Event list \<Rightarrow> OCED" where
  "insert_events m [] = m"
| "insert_events m (e # es) = insert_events (state_after (insert_event m e)) es"

fun successful_inserts :: "OCED \<Rightarrow> Event list \<Rightarrow> nat" where
  "successful_inserts m [] = 0"
| "successful_inserts m (e # es) =
     (if is_Raised (insert_event m e) then 0 else 1)
       + successful_inserts (state_after (insert_event m e)) es"

subsection \<open>A scenario\<close>

text \<open>
  The events of the example: two objects, a relation between them, the deletion of the
  first object, and a second creation of the deleted object's id. The sixth event gives the
  deleted object an attribute value instead.
\<close>

definition scenario_event_1 :: Event where
  "scenario_event_1 =
     \<lparr>event_time = ''2024-01-01T09:00:00'', event_type = ''register'',
      qualifiers = [create_object ''o1'' ''Person''],
      event_attributes = [(''channel'', ''web'')]\<rparr>"

definition scenario_event_2 :: Event where
  "scenario_event_2 =
     \<lparr>event_time = ''2024-01-02T09:00:00'', event_type = ''register'',
      qualifiers = [create_object ''o2'' ''Order''],
      event_attributes = []\<rparr>"

definition scenario_event_3 :: Event where
  "scenario_event_3 =
     \<lparr>event_time = ''2024-01-03T09:00:00'', event_type = ''place'',
      qualifiers = [create_object_relation ''r1'' ''o1'' ''o2'' ''placed''],
      event_attributes = []\<rparr>"

definition scenario_event_4 :: Event where
  "scenario_event_4 =
     \<lparr>event_time = ''2024-01-04T09:00:00'', event_type = ''erase'',
      qualifiers = [delete_object ''o1''],
      event_attributes = []\<rparr>"

definition scenario_event_5 :: Event where
  "scenario_event_5 =
     \<lparr>event_time = ''2024-01-05T09:00:00'', event_type = ''register'',
      qualifiers = [create_object ''o1'' ''Person''],
      event_attributes = []\<rparr>"

definition scenario_event_6 :: Event where
  "scenario_event_6 =
     \<lparr>event_time = ''2024-01-05T09:00:00'', event_type = ''describe'',
      qualifiers = [create_object_attribute_value ''a1'' ''o1'' ''name'' ''Ann''],
      event_attributes = []\<rparr>"

subsection \<open>Auxiliary notions for the properties\<close>

text \<open>The id a qualifier is about lies in the set of its kind.\<close>

fun involves_target :: "qualifier \<Rightarrow> involved_ids \<Rightarrow> bool" where
  "involves_target (create_object i t) ids = (i \<in> inv_object ids)"
| "involves_target (create_object_relation i f t ty) ids = (i \<in> inv_object_relation ids)"
| "involves_target (create_object_attribute_value i ob n v) ids =
     (i \<in> inv_object_attribute_value ids)"
| "involves_target (delete_object i) ids = (i \<in> inv_object ids)"
| "involves_target (delete_object_relation i) ids = (i \<in> inv_object_relation ids)"
| "involves_target (delete_object_attribute_value i) ids = (i \<in> inv_object_attribute_value ids)"
| "involves_target (modify_object i t) ids = (i \<in> inv_object ids)"
| "involves_target (modify_object_relation i t) ids = (i \<in> inv_object_relation ids)"
| "involves_target (modify_object_attribute_value i v) ids = (i \<in> inv_object_attribute_value ids)"
| "involves_target (involve_object i) ids = (i \<in> inv_object ids)"
| "involves_target (involve_object_relation i) ids = (i \<in> inv_object_relation ids)"
| "involves_target (involve_object_attribute_value i) ids = (i \<in> inv_object_attribute_value ids)"

text \<open>What the qualifiers of one event may change in the tables: the event tables, the
  log and the counter stay, junction rows come with the current event counter only, and a
  lookup table without repetition stays so.\<close>

definition tables_frame :: "OCED \<Rightarrow> OCED \<Rightarrow> bool" where
  "tables_frame m m' =
     (event_counter m' = event_counter m \<and> tbl_event m' = tbl_event m \<and>
      tbl_event_type m' = tbl_event_type m \<and> tbl_event_time m' = tbl_event_time m \<and>
      tbl_event_attribute_name m' = tbl_event_attribute_name m \<and>
      tbl_event_attribute_value m' = tbl_event_attribute_value m \<and>
      event_log m' = event_log m \<and>
      fst ` set (tbl_event_x_object m') \<subseteq>
        insert (event_counter m) (fst ` set (tbl_event_x_object m)) \<and>
      fst ` set (tbl_event_x_object_relation m') \<subseteq>
        insert (event_counter m) (fst ` set (tbl_event_x_object_relation m)) \<and>
      fst ` set (tbl_event_x_object_attribute_value m') \<subseteq>
        insert (event_counter m) (fst ` set (tbl_event_x_object_attribute_value m)) \<and>
      (distinct (tbl_object_type m) \<longrightarrow> distinct (tbl_object_type m')) \<and>
      (distinct (tbl_object_relation_type m) \<longrightarrow> distinct (tbl_object_relation_type m')) \<and>
      (distinct (tbl_object_attribute_name m) \<longrightarrow> distinct (tbl_object_attribute_name m')))"

text \<open>Every id in a back-reference list of an object is a key of its dictionary.\<close>

definition back_references_resolve :: "current_state \<Rightarrow> bool" where
  "back_references_resolve c =
     (\<forall>i ob. cs_object c i = Some ob \<longrightarrow>
        set (object_relation_ids ob) \<subseteq> dom (cs_object_relation c) \<and>
        set (object_attribute_value_ids ob) \<subseteq> dom (cs_object_attribute_value c))"

section \<open>Properties\<close>

lemmas add_defs =
  add_object_row_def add_object_relation_row_def add_object_attribute_value_row_def
  add_object_type_def add_object_relation_type_def add_object_attribute_name_def
  add_event_x_object_def add_event_x_object_relation_def add_event_x_object_attribute_value_def

lemmas event_defs =
  insert_event_def precondition_def execute_def execute_event_tables_def log_event_def
  max_time_def empty_involved_ids_def raise_ValueError_naming_qualifier_def
  object_missing_or_dead_def object_relation_missing_or_dead_def
  object_attribute_value_missing_or_dead_def
  append_object_relation_id_def append_object_attribute_value_id_def

lemmas scenario_defs =
  scenario_event_1_def scenario_event_2_def scenario_event_3_def scenario_event_4_def
  scenario_event_5_def scenario_event_6_def OCED_init_def

subsection \<open>The commit pass repeats the validation pass\<close>

text \<open>\<^verbatim>\<open>__update_tables\<close> only reads the current state.\<close>

lemma delete_object_relation_rows_current_state:
  "delete_object_relation_rows rs i m = Done m' \<Longrightarrow> current_state m' = current_state m"
  by (induction rs arbitrary: m) (auto simp: add_defs split: option.splits if_splits)

lemma delete_object_attribute_value_rows_current_state:
  "delete_object_attribute_value_rows avs i m = Done m' \<Longrightarrow> current_state m' = current_state m"
  by (induction avs arbitrary: m) (auto simp: add_defs split: option.splits if_splits)

lemma update_tables_current_state:
  "update_tables q m i = Done m' \<Longrightarrow> current_state m' = current_state m"
  by (cases q)
     (auto simp: add_defs split: option.splits outcome.splits
           dest!: delete_object_relation_rows_current_state
                  delete_object_attribute_value_rows_current_state)

text \<open>The row loops of \<^verbatim>\<open>delete_object\<close> return when every back-reference resolves.\<close>

lemma delete_object_relation_rows_succeeds:
  "set rs \<subseteq> dom (cs_object_relation (current_state m)) \<Longrightarrow>
   \<exists>m'. delete_object_relation_rows rs i m = Done m'"
  by (induction rs arbitrary: m) (auto simp: add_defs split: option.splits)

lemma delete_object_attribute_value_rows_succeeds:
  "set avs \<subseteq> dom (cs_object_attribute_value (current_state m)) \<Longrightarrow>
   \<exists>m'. delete_object_attribute_value_rows avs i m = Done m'"
  by (induction avs arbitrary: m) (auto simp: add_defs split: option.splits)

text \<open>A cascade loop that returns has found every id of its list, and touches one
  dictionary only, whose keys it keeps.\<close>

lemma cascade_object_relations_Done:
  "cascade_object_relations rs c ids = Done s \<Longrightarrow>
   set rs \<subseteq> dom (cs_object_relation c) \<and> cs_object (fst s) = cs_object c \<and>
   cs_object_attribute_value (fst s) = cs_object_attribute_value c \<and>
   dom (cs_object_relation (fst s)) = dom (cs_object_relation c)"
proof (induction rs arbitrary: c ids)
  case Nil
  then show ?case by auto
next
  case (Cons r rs)
  then obtain rel where rel: "cs_object_relation c r = Some rel"
    by (auto split: option.splits)
  show ?case
  proof (cases "rel_existency rel")
    case False
    with Cons rel show ?thesis by auto
  next
    case True
    with Cons.prems rel have
      "cascade_object_relations rs
         (c\<lparr>cs_object_relation := (cs_object_relation c)(r \<mapsto> rel\<lparr>rel_existency := False\<rparr>)\<rparr>)
         (ids\<lparr>inv_object_relation := insert r (inv_object_relation ids)\<rparr>) = Done s"
      by simp
    from Cons.IH [OF this] rel show ?thesis
      by (auto simp: dom_def subset_iff split: if_splits)
  qed
qed

lemma cascade_object_attribute_values_Done:
  "cascade_object_attribute_values avs c ids = Done s \<Longrightarrow>
   set avs \<subseteq> dom (cs_object_attribute_value c) \<and> cs_object (fst s) = cs_object c \<and>
   cs_object_relation (fst s) = cs_object_relation c \<and>
   dom (cs_object_attribute_value (fst s)) = dom (cs_object_attribute_value c)"
proof (induction avs arbitrary: c ids)
  case Nil
  then show ?case by auto
next
  case (Cons a avs)
  then obtain av where av: "cs_object_attribute_value c a = Some av"
    by (auto split: option.splits)
  show ?case
  proof (cases "oav_existency av")
    case False
    with Cons av show ?thesis by auto
  next
    case True
    with Cons.prems av have
      "cascade_object_attribute_values avs
         (c\<lparr>cs_object_attribute_value :=
              (cs_object_attribute_value c)(a \<mapsto> av\<lparr>oav_existency := False\<rparr>)\<rparr>)
         (ids\<lparr>inv_object_attribute_value := insert a (inv_object_attribute_value ids)\<rparr>) = Done s"
      by simp
    from Cons.IH [OF this] av show ?thesis
      by (auto simp: dom_def subset_iff split: if_splits)
  qed
qed

text \<open>Where \<^verbatim>\<open>__update_current_state\<close> returns, \<^verbatim>\<open>__update_tables\<close> on a model holding
  the same current state returns too: every key it reads has been read by the former.\<close>

lemma update_tables_succeeds:
  assumes "update_current_state q (current_state m) ids = Done s"
  shows "\<exists>m'. update_tables q m i = Done m'"
proof (cases q)
  case (delete_object oid)
  with assms obtain ob where ob: "cs_object (current_state m) oid = Some ob" "obj_existency ob"
    by (auto split: option.splits if_splits)
  let ?c1 = "(current_state m)\<lparr>cs_object :=
               (cs_object (current_state m))(oid \<mapsto> ob\<lparr>obj_existency := False\<rparr>)\<rparr>"
  let ?ids1 = "ids\<lparr>inv_object := insert oid (inv_object ids)\<rparr>"
  from assms delete_object ob obtain s1 where
    s1: "cascade_object_relations (object_relation_ids ob) ?c1 ?ids1 = Done s1"
    and s2: "cascade_object_attribute_values (object_attribute_value_ids ob) (fst s1) (snd s1) = Done s"
    by (auto simp: Let_def split: outcome.splits)
  from cascade_object_relations_Done [OF s1]
  have r: "set (object_relation_ids ob) \<subseteq> dom (cs_object_relation (current_state m))"
    and av_eq: "cs_object_attribute_value (fst s1) = cs_object_attribute_value (current_state m)"
    by auto
  from cascade_object_attribute_values_Done [OF s2] av_eq
  have a: "set (object_attribute_value_ids ob) \<subseteq> dom (cs_object_attribute_value (current_state m))"
    by auto
  let ?m0 = "add_event_x_object oid DELETE i (add_object_row (oid, obj_type ob, False) m)"
  have cs0: "current_state ?m0 = current_state m" by (simp add: add_defs)
  from r cs0 obtain m1 where
    m1: "delete_object_relation_rows (object_relation_ids ob) i ?m0 = Done m1"
    using delete_object_relation_rows_succeeds [of "object_relation_ids ob" ?m0 i] by auto
  from delete_object_relation_rows_current_state [OF m1] cs0
  have "current_state m1 = current_state m" by simp
  with a obtain m2 where
    "delete_object_attribute_value_rows (object_attribute_value_ids ob) i m1 = Done m2"
    using delete_object_attribute_value_rows_succeeds [of "object_attribute_value_ids ob" m1 i]
    by auto
  with m1 ob delete_object show ?thesis by simp
qed (use assms in \<open>auto split: option.splits\<close>)

lemma execute_loop_repeats_precondition_loop:
  "precondition_loop qs (current_state m) ids = Done s \<Longrightarrow>
   \<exists>m'. execute_loop qs i m ids = Done (m', snd s) \<and> current_state m' = fst s"
proof (induction qs arbitrary: m ids i)
  case Nil
  then show ?case by auto
next
  case (Cons q qs)
  from Cons.prems obtain s1 where
    s1: "update_current_state q (current_state m) ids = Done s1"
    and rest: "precondition_loop qs (fst s1) (snd s1) = Done s"
    by (auto split: outcome.splits)
  from update_tables_succeeds [OF s1] obtain m1 where m1: "update_tables q m i = Done m1"
    by blast
  have cs1: "current_state m1 = current_state m"
    by (rule update_tables_current_state [OF m1])
  let ?m2 = "m1\<lparr>current_state := fst s1\<rparr>"
  have "precondition_loop qs (current_state ?m2) (snd s1) = Done s"
    using rest by simp
  from Cons.IH [OF this, of "Suc i"] obtain m' where
    "execute_loop qs (Suc i) ?m2 (snd s1) = Done (m', snd s)" "current_state m' = fst s"
    by blast
  with m1 s1 cs1 show ?case by simp
qed

lemma precondition_Done_loop:
  "precondition m e = Done s \<Longrightarrow>
   precondition_loop (qualifiers e) (current_state m) empty_involved_ids = Done s"
  by (auto simp: precondition_def split: option.splits if_splits)

lemma execute_event_tables_current_state:
  "current_state (execute_event_tables m e) = current_state m"
  by (simp add: execute_event_tables_def Let_def)

lemma execute_after_precondition:
  assumes "precondition m e = Done s"
  shows "\<exists>m'. execute m e = Done m' \<and> current_state m' = fst s"
proof -
  have "precondition_loop (qualifiers e) (current_state (execute_event_tables m e))
          empty_involved_ids = Done s"
    using precondition_Done_loop [OF assms] by (simp add: execute_event_tables_current_state)
  from execute_loop_repeats_precondition_loop [OF this, of 0]
  show ?thesis by (auto simp: execute_def)
qed

lemma insert_event_after_precondition:
  assumes "precondition m e = Done s"
  shows "\<exists>m1. execute m e = Done m1 \<and> current_state m1 = fst s \<and>
           insert_event m e = Done ((log_event m1 e)\<lparr>event_counter := event_counter m1 + 1\<rparr>)"
  using execute_after_precondition [OF assms] assms
  by (auto simp: insert_event_def log_event_def Let_def)

text \<open>
  C2. If the validation pass (\<^verbatim>\<open>__precondition\<close>, on the copy of the current state)
  returns for an event, then the commit pass (\<^verbatim>\<open>__execute\<close>, the same qualifiers in the
  same order on the model's own current state) returns as well, the current state it
  leaves is the state the validation pass has computed, and so is the current state of the
  model that \<^verbatim>\<open>insert_event\<close> returns.
\<close>

theorem commit_repeats_validation:
  assumes "precondition m e = Done s"
  shows "(\<exists>m1. execute m e = Done m1 \<and> current_state m1 = fst s) \<and>
         (\<exists>m2. insert_event m e = Done m2 \<and> current_state m2 = fst s)"
proof -
  from insert_event_after_precondition [OF assms] obtain m1 where
    m1: "execute m e = Done m1" "current_state m1 = fst s"
    and ins: "insert_event m e = Done ((log_event m1 e)\<lparr>event_counter := event_counter m1 + 1\<rparr>)"
    by blast
  have "current_state ((log_event m1 e)\<lparr>event_counter := event_counter m1 + 1\<rparr>) = fst s"
    using m1 by (simp add: log_event_def)
  with m1 ins show ?thesis by blast
qed

theorem commit_repeats_validation_witness:
  "precondition OCED_init scenario_event_1 =
     Done (\<lparr>cs_object = [''o1'' \<mapsto> \<lparr>obj_type = ''Person'', obj_existency = True,
                                     object_relation_ids = [], object_attribute_value_ids = []\<rparr>],
            cs_object_relation = Map.empty, cs_object_attribute_value = Map.empty\<rparr>,
           \<lparr>inv_object = {''o1''}, inv_object_relation = {},
            inv_object_attribute_value = {}\<rparr>) \<and>
   (\<exists>m2. insert_event OCED_init scenario_event_1 = Done m2 \<and>
         cs_object (current_state m2) ''o1'' =
           Some \<lparr>obj_type = ''Person'', obj_existency = True,
                 object_relation_ids = [], object_attribute_value_ids = []\<rparr>)"
proof -
  let ?s = "(\<lparr>cs_object = [''o1'' \<mapsto> \<lparr>obj_type = ''Person'', obj_existency = True,
                                     object_relation_ids = [], object_attribute_value_ids = []\<rparr>],
            cs_object_relation = Map.empty, cs_object_attribute_value = Map.empty\<rparr>,
           \<lparr>inv_object = {''o1''}, inv_object_relation = {},
            inv_object_attribute_value = {}\<rparr>)"
  have h: "precondition OCED_init scenario_event_1 = Done ?s"
    by (simp add: event_defs scenario_defs)
  from commit_repeats_validation [OF h] h show ?thesis by auto
qed

subsection \<open>Atomicity\<close>

text \<open>
  C1. When the validation of an event fails, be it on the time check or on a qualifier,
  \<^verbatim>\<open>insert_event\<close> raises the exception of the validation and the model after the call is
  the model before the call: current state, every history and junction table, the log and
  the event counter.
\<close>

theorem insert_event_atomic:
  assumes "precondition m e = Raised err s"
  shows "insert_event m e = Raised err m"
  using assms by (simp add: insert_event_def)

theorem insert_event_atomic_witness:
  "precondition (state_after (insert_event OCED_init scenario_event_1)) scenario_event_1 =
     Raised ValueError
       (current_state (state_after (insert_event OCED_init scenario_event_1)), empty_involved_ids) \<and>
   insert_event (state_after (insert_event OCED_init scenario_event_1)) scenario_event_1 =
     Raised ValueError (state_after (insert_event OCED_init scenario_event_1))"
proof -
  let ?m = "state_after (insert_event OCED_init scenario_event_1)"
  have h: "precondition ?m scenario_event_1 = Raised ValueError (current_state ?m, empty_involved_ids)"
    by (simp add: event_defs scenario_defs add_defs)
  from insert_event_atomic [OF h] h show ?thesis by simp
qed

subsection \<open>What one event changes in the tables\<close>

lemma tables_frame_refl: "tables_frame m m"
  by (auto simp: tables_frame_def)

lemma tables_frame_trans:
  assumes "tables_frame m m1" and "tables_frame m1 m2"
  shows "tables_frame m m2"
proof -
  from assms(1) have c: "event_counter m1 = event_counter m"
    by (simp add: tables_frame_def)
  from assms(1) have e1: "tbl_event m1 = tbl_event m" "tbl_event_type m1 = tbl_event_type m"
    "tbl_event_time m1 = tbl_event_time m"
    "tbl_event_attribute_name m1 = tbl_event_attribute_name m"
    "tbl_event_attribute_value m1 = tbl_event_attribute_value m" "event_log m1 = event_log m"
    by (simp_all add: tables_frame_def)
  from assms(2) have e2: "event_counter m2 = event_counter m1"
    "tbl_event m2 = tbl_event m1" "tbl_event_type m2 = tbl_event_type m1"
    "tbl_event_time m2 = tbl_event_time m1"
    "tbl_event_attribute_name m2 = tbl_event_attribute_name m1"
    "tbl_event_attribute_value m2 = tbl_event_attribute_value m1" "event_log m2 = event_log m1"
    by (simp_all add: tables_frame_def)
  have j1: "fst ` set (tbl_event_x_object m2) \<subseteq> insert (event_counter m) (fst ` set (tbl_event_x_object m))"
  proof -
    from assms(1) have 1: "fst ` set (tbl_event_x_object m1) \<subseteq> insert (event_counter m) (fst ` set (tbl_event_x_object m))"
      by (simp add: tables_frame_def)
    from assms(2) have 2: "fst ` set (tbl_event_x_object m2) \<subseteq> insert (event_counter m1) (fst ` set (tbl_event_x_object m1))"
      by (simp add: tables_frame_def)
    from 1 2 show ?thesis unfolding c by blast
  qed
  have j2: "fst ` set (tbl_event_x_object_relation m2) \<subseteq> insert (event_counter m) (fst ` set (tbl_event_x_object_relation m))"
  proof -
    from assms(1) have 1: "fst ` set (tbl_event_x_object_relation m1) \<subseteq> insert (event_counter m) (fst ` set (tbl_event_x_object_relation m))"
      by (simp add: tables_frame_def)
    from assms(2) have 2: "fst ` set (tbl_event_x_object_relation m2) \<subseteq> insert (event_counter m1) (fst ` set (tbl_event_x_object_relation m1))"
      by (simp add: tables_frame_def)
    from 1 2 show ?thesis unfolding c by blast
  qed
  have j3: "fst ` set (tbl_event_x_object_attribute_value m2) \<subseteq> insert (event_counter m) (fst ` set (tbl_event_x_object_attribute_value m))"
  proof -
    from assms(1) have 1: "fst ` set (tbl_event_x_object_attribute_value m1) \<subseteq> insert (event_counter m) (fst ` set (tbl_event_x_object_attribute_value m))"
      by (simp add: tables_frame_def)
    from assms(2) have 2: "fst ` set (tbl_event_x_object_attribute_value m2) \<subseteq> insert (event_counter m1) (fst ` set (tbl_event_x_object_attribute_value m1))"
      by (simp add: tables_frame_def)
    from 1 2 show ?thesis unfolding c by blast
  qed
  have d1: "distinct (tbl_object_type m) \<longrightarrow> distinct (tbl_object_type m2)"
  proof -
    from assms(1) have 1: "distinct (tbl_object_type m) \<longrightarrow> distinct (tbl_object_type m1)"
      by (simp add: tables_frame_def)
    from assms(2) have 2: "distinct (tbl_object_type m1) \<longrightarrow> distinct (tbl_object_type m2)"
      by (simp add: tables_frame_def)
    from 1 2 show ?thesis by blast
  qed
  have d2: "distinct (tbl_object_relation_type m) \<longrightarrow> distinct (tbl_object_relation_type m2)"
  proof -
    from assms(1) have 1: "distinct (tbl_object_relation_type m) \<longrightarrow> distinct (tbl_object_relation_type m1)"
      by (simp add: tables_frame_def)
    from assms(2) have 2: "distinct (tbl_object_relation_type m1) \<longrightarrow> distinct (tbl_object_relation_type m2)"
      by (simp add: tables_frame_def)
    from 1 2 show ?thesis by blast
  qed
  have d3: "distinct (tbl_object_attribute_name m) \<longrightarrow> distinct (tbl_object_attribute_name m2)"
  proof -
    from assms(1) have 1: "distinct (tbl_object_attribute_name m) \<longrightarrow> distinct (tbl_object_attribute_name m1)"
      by (simp add: tables_frame_def)
    from assms(2) have 2: "distinct (tbl_object_attribute_name m1) \<longrightarrow> distinct (tbl_object_attribute_name m2)"
      by (simp add: tables_frame_def)
    from 1 2 show ?thesis by blast
  qed
  show ?thesis
    unfolding tables_frame_def
    by (intro conjI j1 j2 j3 d1 d2 d3) (simp_all only: e2 e1 c)
qed

lemma tables_frame_current_state: "tables_frame m (m\<lparr>current_state := c\<rparr>)"
  by (auto simp: tables_frame_def)

lemma tables_frame_add:
  "tables_frame m (add_object_row orow m)"
  "tables_frame m (add_object_relation_row rrow m)"
  "tables_frame m (add_object_attribute_value_row arow m)"
  "tables_frame m (add_object_type t m)"
  "tables_frame m (add_object_relation_type t m)"
  "tables_frame m (add_object_attribute_name t m)"
  "tables_frame m (add_event_x_object x qt i m)"
  "tables_frame m (add_event_x_object_relation x qt i m)"
  "tables_frame m (add_event_x_object_attribute_value x qt i m)"
  by (auto simp: tables_frame_def add_defs)

lemma tables_frame_step:
  "tables_frame m m1 \<Longrightarrow> tables_frame m (add_object_row orow m1)"
  "tables_frame m m1 \<Longrightarrow> tables_frame m (add_object_relation_row rrow m1)"
  "tables_frame m m1 \<Longrightarrow> tables_frame m (add_object_attribute_value_row arow m1)"
  "tables_frame m m1 \<Longrightarrow> tables_frame m (add_object_type t m1)"
  "tables_frame m m1 \<Longrightarrow> tables_frame m (add_object_relation_type t m1)"
  "tables_frame m m1 \<Longrightarrow> tables_frame m (add_object_attribute_name t m1)"
  "tables_frame m m1 \<Longrightarrow> tables_frame m (add_event_x_object x qt i m1)"
  "tables_frame m m1 \<Longrightarrow> tables_frame m (add_event_x_object_relation x qt i m1)"
  "tables_frame m m1 \<Longrightarrow> tables_frame m (add_event_x_object_attribute_value x qt i m1)"
  by (erule tables_frame_trans, rule tables_frame_add)+

lemma delete_object_relation_rows_frame:
  "delete_object_relation_rows rs i m = Done m' \<Longrightarrow> tables_frame m m'"
proof (induction rs arbitrary: m)
  case Nil
  then show ?case by (simp add: tables_frame_refl)
next
  case (Cons r rs)
  then obtain rel where rel: "cs_object_relation (current_state m) r = Some rel"
    by (auto split: option.splits)
  show ?case
  proof (cases "rel_existency rel")
    case False
    with Cons rel show ?thesis by simp
  next
    case True
    let ?m1 = "add_event_x_object_relation r DELETE i
                 (add_object_relation_row
                   (r, rel_from_object_id rel, rel_to_object_id rel, rel_type rel, False) m)"
    from True Cons.prems rel have "delete_object_relation_rows rs i ?m1 = Done m'" by simp
    from Cons.IH [OF this] have "tables_frame ?m1 m'" .
    moreover have "tables_frame m ?m1"
      by (intro tables_frame_step tables_frame_refl)
    ultimately show ?thesis by (rule tables_frame_trans [rotated])
  qed
qed

lemma delete_object_attribute_value_rows_frame:
  "delete_object_attribute_value_rows avs i m = Done m' \<Longrightarrow> tables_frame m m'"
proof (induction avs arbitrary: m)
  case Nil
  then show ?case by (simp add: tables_frame_refl)
next
  case (Cons a avs)
  then obtain av where av: "cs_object_attribute_value (current_state m) a = Some av"
    by (auto split: option.splits)
  show ?case
  proof (cases "oav_existency av")
    case False
    with Cons av show ?thesis by simp
  next
    case True
    let ?m1 = "add_event_x_object_attribute_value a DELETE i
                 (add_object_attribute_value_row
                   (a, oav_object_id av, oav_name av, oav_value av, False) m)"
    from True Cons.prems av have "delete_object_attribute_value_rows avs i ?m1 = Done m'" by simp
    from Cons.IH [OF this] have "tables_frame ?m1 m'" .
    moreover have "tables_frame m ?m1"
      by (intro tables_frame_step tables_frame_refl)
    ultimately show ?thesis by (rule tables_frame_trans [rotated])
  qed
qed

lemma update_tables_frame:
  assumes "update_tables q m i = Done m'"
  shows "tables_frame m m'"
proof (cases q)
  case (delete_object oid)
  with assms obtain ob where ob: "cs_object (current_state m) oid = Some ob"
    by (auto split: option.splits)
  let ?m0 = "add_event_x_object oid DELETE i (add_object_row (oid, obj_type ob, False) m)"
  from assms delete_object ob obtain m1 where
    m1: "delete_object_relation_rows (object_relation_ids ob) i ?m0 = Done m1"
    and m2: "delete_object_attribute_value_rows (object_attribute_value_ids ob) i m1 = Done m'"
    by (cases "delete_object_relation_rows (object_relation_ids ob) i ?m0") simp_all
  have "tables_frame m ?m0" by (intro tables_frame_step tables_frame_refl)
  with delete_object_relation_rows_frame [OF m1] delete_object_attribute_value_rows_frame [OF m2]
  show ?thesis by (blast intro: tables_frame_trans)
qed (use assms in \<open>auto split: option.splits intro!: tables_frame_step tables_frame_refl\<close>)

lemma execute_loop_frame:
  "execute_loop qs i m ids = Done s \<Longrightarrow> tables_frame m (fst s)"
proof (induction qs arbitrary: i m ids)
  case Nil
  then show ?case by (auto simp: tables_frame_refl)
next
  case (Cons q qs)
  from Cons.prems obtain m1 where m1: "update_tables q m i = Done m1"
    by (cases "update_tables q m i") simp_all
  from Cons.prems m1 obtain s1 where
    s1: "update_current_state q (current_state m1) ids = Done s1"
    by (cases "update_current_state q (current_state m1) ids") simp_all
  from Cons.prems m1 s1 have
    rest: "execute_loop qs (Suc i) (m1\<lparr>current_state := fst s1\<rparr>) (snd s1) = Done s"
    by simp
  from update_tables_frame [OF m1] tables_frame_current_state [of m1 "fst s1"] Cons.IH [OF rest]
  show ?case by (blast intro: tables_frame_trans)
qed

lemma insert_event_Raised:
  assumes "insert_event m e = Raised err m'"
  shows "m' = m"
proof (cases "precondition m e")
  case (Done s)
  from insert_event_after_precondition [OF this] assms show ?thesis by auto
next
  case (Raised err' s)
  with assms show ?thesis by (simp add: insert_event_def)
qed

lemma insert_event_Done:
  assumes "insert_event m e = Done m'"
  shows "\<exists>s m1. precondition m e = Done s \<and> current_state m1 = fst s \<and>
           tables_frame (execute_event_tables m e) m1 \<and>
           m' = (log_event m1 e)\<lparr>event_counter := event_counter m1 + 1\<rparr>"
proof (cases "precondition m e")
  case (Done s)
  from insert_event_after_precondition [OF this] assms obtain m1 where
    m1: "execute m e = Done m1" "current_state m1 = fst s"
      "m' = (log_event m1 e)\<lparr>event_counter := event_counter m1 + 1\<rparr>"
    by auto
  from m1(1) obtain s1 where
    "execute_loop (qualifiers e) 0 (execute_event_tables m e) empty_involved_ids = Done s1"
    "fst s1 = m1"
    by (auto simp: execute_def split: outcome.splits)
  from execute_loop_frame [OF this(1)] this(2) have "tables_frame (execute_event_tables m e) m1"
    by simp
  with Done m1 show ?thesis by blast
next
  case (Raised err' s)
  with assms show ?thesis by (simp add: insert_event_def)
qed

lemma insert_events_invariant:
  assumes "P m" and "\<And>m e m'. P m \<Longrightarrow> e \<in> set es \<Longrightarrow> insert_event m e = Done m' \<Longrightarrow> P m'"
  shows "P (insert_events m es)"
  using assms
proof (induction es arbitrary: m)
  case Nil
  then show ?case by simp
next
  case (Cons e es)
  have 1: "P (state_after (insert_event m e))"
  proof (cases "insert_event m e")
    case (Done m')
    have "P m'" by (rule Cons.prems(2) [OF Cons.prems(1) _ Done]) simp
    with Done show ?thesis by simp
  next
    case (Raised err m')
    from insert_event_Raised [OF this] have "m' = m" .
    with Raised Cons.prems(1) show ?thesis by simp
  qed
  have 2: "P m'" if "P m" "e' \<in> set es" "insert_event m e' = Done m'" for m e' m'
    by (rule Cons.prems(2) [OF that(1) _ that(3)]) (simp add: that(2))
  have "P (insert_events (state_after (insert_event m e)) es)"
    by (rule Cons.IH [OF 1 2])
  then show ?case by simp
qed

subsection \<open>The exception of a failed qualifier\<close>

text \<open>
  C3. The claim: a qualifier whose precondition fails makes \<^verbatim>\<open>insert_event\<close> raise
  \<^verbatim>\<open>ValueError\<close>, the only kind of error it lets out. In the scenario the fifth event
  creates the id \<open>o1\<close> a second time, after four accepted events; the call raises
  \<^verbatim>\<open>AttributeError\<close>, from the message of the intended \<^verbatim>\<open>ValueError\<close>, and leaves the
  model as it was.
\<close>

theorem precondition_violation_raises_AttributeError:
  "insert_event (insert_events OCED_init
       [scenario_event_1, scenario_event_2, scenario_event_3, scenario_event_4]) scenario_event_5 =
     Raised AttributeError (insert_events OCED_init
       [scenario_event_1, scenario_event_2, scenario_event_3, scenario_event_4]) \<and>
   successful_inserts OCED_init
       [scenario_event_1, scenario_event_2, scenario_event_3, scenario_event_4] = 4"
  by (simp add: event_defs scenario_defs add_defs)

subsection \<open>Existency of an attribute value and of its owner\<close>

text \<open>
  C4. The claim: in every reachable state a live attribute value has a live owner. After
  the four accepted events of the scenario the object \<open>o1\<close> is deleted; the sixth event
  creates the attribute value \<open>a1\<close> of \<open>o1\<close> and is accepted as well, and the state then
  holds the live \<open>a1\<close> owned by the deleted \<open>o1\<close>.
\<close>

theorem attribute_value_of_deleted_object_is_live:
  "successful_inserts OCED_init
     [scenario_event_1, scenario_event_2, scenario_event_3, scenario_event_4, scenario_event_6] = 5 \<and>
   (let c = current_state (insert_events OCED_init
       [scenario_event_1, scenario_event_2, scenario_event_3, scenario_event_4, scenario_event_6])
    in map_option oav_existency (cs_object_attribute_value c ''a1'') = Some True \<and>
       map_option oav_object_id (cs_object_attribute_value c ''a1'') = Some ''o1'' \<and>
       map_option obj_existency (cs_object c ''o1'') = Some False)"
  by (simp add: event_defs scenario_defs add_defs)

subsection \<open>\<^verbatim>\<open>create_object_attribute_value\<close>\<close>

text \<open>
  C5, as stated, fails: on the fresh model the id \<open>a1\<close> is unused, yet creating \<open>a1\<close>
  for the owner \<open>o1\<close>, which no object has, raises (a \<^verbatim>\<open>KeyError\<close>, from the append to the
  owner's list).
\<close>

theorem create_object_attribute_value_unknown_owner_counterexample:
  "''a1'' \<notin> dom (cs_object_attribute_value (current_state OCED_init)) \<and>
   is_Raised (update_current_state (create_object_attribute_value ''a1'' ''o1'' ''name'' ''Ann'')
      (current_state OCED_init) empty_involved_ids) \<and>
   insert_event OCED_init scenario_event_6 = Raised KeyError OCED_init"
  by (simp add: event_defs scenario_defs add_defs)

text \<open>
  C5, amended. In a current state where the owner \<open>object_id\<close> is a live object,
  \<^verbatim>\<open>create_object_attribute_value\<close> raises when \<open>object_attribute_value_id\<close> is already a
  key of the attribute values (live or not), leaving state and involved ids as they were;
  otherwise it returns, having inserted the live attribute value, appended its id to the
  owner's list of attribute value ids, and added the id to the involved ids.
\<close>

theorem create_object_attribute_value_live_owner:
  assumes "cs_object c object_id = Some ob" and "obj_existency ob"
  shows "(object_attribute_value_id \<in> dom (cs_object_attribute_value c) \<longrightarrow>
            is_Raised (update_current_state (create_object_attribute_value
               object_attribute_value_id object_id object_attribute_name object_attribute_value) c ids) \<and>
            state_after (update_current_state (create_object_attribute_value
               object_attribute_value_id object_id object_attribute_name object_attribute_value) c ids) =
              (c, ids)) \<and>
         (object_attribute_value_id \<notin> dom (cs_object_attribute_value c) \<longrightarrow>
            update_current_state (create_object_attribute_value
               object_attribute_value_id object_id object_attribute_name object_attribute_value) c ids =
            Done (c\<lparr>cs_object_attribute_value :=
                      (cs_object_attribute_value c)(object_attribute_value_id \<mapsto>
                         \<lparr>oav_name = object_attribute_name, oav_value = object_attribute_value,
                          oav_existency = True, oav_object_id = object_id\<rparr>),
                    cs_object := (cs_object c)(object_id \<mapsto>
                         ob\<lparr>object_attribute_value_ids := object_attribute_value_ids ob @ [object_attribute_value_id]\<rparr>)\<rparr>,
                  ids\<lparr>inv_object_attribute_value := insert object_attribute_value_id (inv_object_attribute_value ids)\<rparr>))"
  using assms by (auto simp: event_defs)

theorem create_object_attribute_value_live_owner_witness:
  "cs_object (current_state (state_after (insert_event OCED_init scenario_event_1))) ''o1'' =
     Some \<lparr>obj_type = ''Person'', obj_existency = True,
           object_relation_ids = [], object_attribute_value_ids = []\<rparr> \<and>
   ''a1'' \<notin> dom (cs_object_attribute_value
                  (current_state (state_after (insert_event OCED_init scenario_event_1)))) \<and>
   (\<exists>s. update_current_state (create_object_attribute_value ''a1'' ''o1'' ''name'' ''Ann'')
          (current_state (state_after (insert_event OCED_init scenario_event_1)))
          empty_involved_ids = Done s \<and>
        map_option object_attribute_value_ids (cs_object (fst s) ''o1'') = Some [''a1''] \<and>
        map_option oav_existency (cs_object_attribute_value (fst s) ''a1'') = Some True)"
proof -
  let ?c = "current_state (state_after (insert_event OCED_init scenario_event_1))"
  let ?ob = "\<lparr>obj_type = ''Person'', obj_existency = True,
              object_relation_ids = [], object_attribute_value_ids = []\<rparr>"
  have h1: "cs_object ?c ''o1'' = Some ?ob"
    by (simp add: event_defs scenario_defs add_defs)
  have h2: "obj_existency ?ob" by simp
  have h3: "''a1'' \<notin> dom (cs_object_attribute_value ?c)"
    by (simp add: event_defs scenario_defs add_defs)
  from create_object_attribute_value_live_owner
         [OF h1 h2, of "''a1''" "''name''" "''Ann''" empty_involved_ids] h1 h3
  show ?thesis by simp
qed

subsection \<open>Involved ids\<close>

lemma cascade_object_relations_ids_irrelevant:
  "is_Raised (cascade_object_relations rs c ids) = is_Raised (cascade_object_relations rs c ids') \<and>
   fst (state_after (cascade_object_relations rs c ids)) =
   fst (state_after (cascade_object_relations rs c ids'))"
  by (induction rs arbitrary: c ids ids') (auto split: option.splits)

lemma cascade_object_attribute_values_ids_irrelevant:
  "is_Raised (cascade_object_attribute_values avs c ids) = is_Raised (cascade_object_attribute_values avs c ids') \<and>
   fst (state_after (cascade_object_attribute_values avs c ids)) =
   fst (state_after (cascade_object_attribute_values avs c ids'))"
  by (induction avs arbitrary: c ids ids') (auto split: option.splits)

lemma cascade_object_relations_inv_object:
  "inv_object (snd (state_after (cascade_object_relations rs c ids))) = inv_object ids"
  by (induction rs arbitrary: c ids) (auto split: option.splits)

lemma cascade_object_attribute_values_inv_object:
  "inv_object (snd (state_after (cascade_object_attribute_values avs c ids))) = inv_object ids"
  by (induction avs arbitrary: c ids) (auto split: option.splits)

lemma update_current_state_ids_irrelevant:
  assumes "qualifier_type_of q \<noteq> INVOLVE"
  shows "is_Raised (update_current_state q c ids) = is_Raised (update_current_state q c ids') \<and>
         fst (state_after (update_current_state q c ids)) =
         fst (state_after (update_current_state q c ids'))"
proof (cases q)
  case (delete_object oid)
  show ?thesis
  proof (cases "cs_object c oid")
    case None
    with delete_object show ?thesis by simp
  next
    case (Some ob)
    let ?c1 = "c\<lparr>cs_object := (cs_object c)(oid \<mapsto> ob\<lparr>obj_existency := False\<rparr>)\<rparr>"
    let ?i1 = "ids\<lparr>inv_object := insert oid (inv_object ids)\<rparr>"
    let ?i2 = "ids'\<lparr>inv_object := insert oid (inv_object ids')\<rparr>"
    note r = cascade_object_relations_ids_irrelevant [of "object_relation_ids ob" ?c1 ?i1 ?i2]
    show ?thesis
    proof (cases "cascade_object_relations (object_relation_ids ob) ?c1 ?i1")
      case (Raised err s)
      with r obtain err' s' where
        "cascade_object_relations (object_relation_ids ob) ?c1 ?i2 = Raised err' s'" "fst s' = fst s"
        by (cases "cascade_object_relations (object_relation_ids ob) ?c1 ?i2") auto
      with Raised Some delete_object show ?thesis by (simp add: Let_def)
    next
      case (Done s)
      with r obtain s' where
        s': "cascade_object_relations (object_relation_ids ob) ?c1 ?i2 = Done s'" "fst s' = fst s"
        by (cases "cascade_object_relations (object_relation_ids ob) ?c1 ?i2") auto
      from Done s' Some delete_object
        cascade_object_attribute_values_ids_irrelevant
          [of "object_attribute_value_ids ob" "fst s" "snd s" "snd s'"]
      show ?thesis by (simp add: Let_def)
    qed
  qed
qed (use assms in \<open>auto simp: event_defs Let_def split: option.splits\<close>)

lemma update_current_state_involves_target:
  assumes "update_current_state q c ids = Done s"
  shows "involves_target q (snd s)"
proof (cases q)
  case (delete_object oid)
  with assms obtain ob where ob: "cs_object c oid = Some ob" "obj_existency ob"
    by (auto split: option.splits if_splits)
  let ?c1 = "c\<lparr>cs_object := (cs_object c)(oid \<mapsto> ob\<lparr>obj_existency := False\<rparr>)\<rparr>"
  let ?i1 = "ids\<lparr>inv_object := insert oid (inv_object ids)\<rparr>"
  from assms delete_object ob obtain s1 where
    s1: "cascade_object_relations (object_relation_ids ob) ?c1 ?i1 = Done s1"
    and s2: "cascade_object_attribute_values (object_attribute_value_ids ob) (fst s1) (snd s1) = Done s"
    by (auto simp: Let_def split: outcome.splits)
  from cascade_object_relations_inv_object [of "object_relation_ids ob" ?c1 ?i1] s1
  have "inv_object (snd s1) = insert oid (inv_object ids)" by simp
  with cascade_object_attribute_values_inv_object [of "object_attribute_value_ids ob" "fst s1" "snd s1"] s2
  have "inv_object (snd s) = insert oid (inv_object ids)" by simp
  with delete_object show ?thesis by simp
qed (use assms in \<open>auto simp: event_defs Let_def split: option.splits if_splits\<close>)

text \<open>No qualifier that returns takes an id out of the involved ids.\<close>

lemma cascade_object_relations_ids_kept:
  "cascade_object_relations rs c ids = Done s \<Longrightarrow>
   inv_object (snd s) = inv_object ids \<and>
   inv_object_attribute_value (snd s) = inv_object_attribute_value ids \<and>
   inv_object_relation ids \<subseteq> inv_object_relation (snd s)"
proof (induction rs arbitrary: c ids)
  case Nil
  then show ?case by auto
next
  case (Cons r rs)
  then obtain rel where rel: "cs_object_relation c r = Some rel"
    by (auto split: option.splits)
  show ?case
  proof (cases "rel_existency rel")
    case False
    with Cons rel show ?thesis by auto
  next
    case True
    with Cons.prems rel have
      "cascade_object_relations rs
         (c\<lparr>cs_object_relation := (cs_object_relation c)(r \<mapsto> rel\<lparr>rel_existency := False\<rparr>)\<rparr>)
         (ids\<lparr>inv_object_relation := insert r (inv_object_relation ids)\<rparr>) = Done s"
      by simp
    from Cons.IH [OF this] show ?thesis by auto
  qed
qed

lemma cascade_object_attribute_values_ids_kept:
  "cascade_object_attribute_values avs c ids = Done s \<Longrightarrow>
   inv_object (snd s) = inv_object ids \<and>
   inv_object_relation (snd s) = inv_object_relation ids \<and>
   inv_object_attribute_value ids \<subseteq> inv_object_attribute_value (snd s)"
proof (induction avs arbitrary: c ids)
  case Nil
  then show ?case by auto
next
  case (Cons a avs)
  then obtain av where av: "cs_object_attribute_value c a = Some av"
    by (auto split: option.splits)
  show ?case
  proof (cases "oav_existency av")
    case False
    with Cons av show ?thesis by auto
  next
    case True
    with Cons.prems av have
      "cascade_object_attribute_values avs
         (c\<lparr>cs_object_attribute_value :=
              (cs_object_attribute_value c)(a \<mapsto> av\<lparr>oav_existency := False\<rparr>)\<rparr>)
         (ids\<lparr>inv_object_attribute_value := insert a (inv_object_attribute_value ids)\<rparr>) = Done s"
      by simp
    from Cons.IH [OF this] show ?thesis by auto
  qed
qed

lemma update_current_state_ids_kept:
  assumes "update_current_state q c ids = Done s"
  shows "inv_object ids \<subseteq> inv_object (snd s) \<and>
         inv_object_relation ids \<subseteq> inv_object_relation (snd s) \<and>
         inv_object_attribute_value ids \<subseteq> inv_object_attribute_value (snd s)"
proof (cases q)
  case (delete_object oid)
  with assms obtain ob where ob: "cs_object c oid = Some ob" "obj_existency ob"
    by (auto split: option.splits if_splits)
  let ?c1 = "c\<lparr>cs_object := (cs_object c)(oid \<mapsto> ob\<lparr>obj_existency := False\<rparr>)\<rparr>"
  let ?i1 = "ids\<lparr>inv_object := insert oid (inv_object ids)\<rparr>"
  from assms delete_object ob obtain s1 where
    s1: "cascade_object_relations (object_relation_ids ob) ?c1 ?i1 = Done s1"
    and s2: "cascade_object_attribute_values (object_attribute_value_ids ob) (fst s1) (snd s1) = Done s"
    by (auto simp: Let_def split: outcome.splits)
  from cascade_object_relations_ids_kept [OF s1]
  have a: "inv_object (snd s1) = insert oid (inv_object ids)"
    "inv_object_attribute_value (snd s1) = inv_object_attribute_value ids"
    "inv_object_relation ids \<subseteq> inv_object_relation (snd s1)"
    by simp_all
  from cascade_object_attribute_values_ids_kept [OF s2]
  have b: "inv_object (snd s) = inv_object (snd s1)"
    "inv_object_relation (snd s) = inv_object_relation (snd s1)"
    "inv_object_attribute_value (snd s1) \<subseteq> inv_object_attribute_value (snd s)"
    by simp_all
  have 1: "inv_object ids \<subseteq> inv_object (snd s)" unfolding b(1) a(1) by blast
  have 2: "inv_object_relation ids \<subseteq> inv_object_relation (snd s)"
    unfolding b(2) by (rule a(3))
  have 3: "inv_object_attribute_value ids \<subseteq> inv_object_attribute_value (snd s)"
    using b(3) unfolding a(2) .
  show ?thesis by (intro conjI 1 2 3)
qed (use assms in \<open>auto simp: event_defs Let_def split: option.splits if_splits\<close>)

lemma involves_target_mono:
  assumes "involves_target q ids" and "inv_object ids \<subseteq> inv_object ids'"
    and "inv_object_relation ids \<subseteq> inv_object_relation ids'"
    and "inv_object_attribute_value ids \<subseteq> inv_object_attribute_value ids'"
  shows "involves_target q ids'"
  using assms by (cases q) auto

text \<open>Over the qualifiers of one event: when the loop has run a list of qualifiers, the
  involved ids hold the ids they started with and the target id of every qualifier of the
  list.\<close>

lemma precondition_loop_involved:
  "precondition_loop qs c ids = Done s \<Longrightarrow>
   (\<forall>q \<in> set qs. involves_target q (snd s)) \<and>
   inv_object ids \<subseteq> inv_object (snd s) \<and>
   inv_object_relation ids \<subseteq> inv_object_relation (snd s) \<and>
   inv_object_attribute_value ids \<subseteq> inv_object_attribute_value (snd s)"
proof (induction qs arbitrary: c ids)
  case Nil
  then show ?case by auto
next
  case (Cons q qs)
  from Cons.prems obtain s1 where
    s1: "update_current_state q c ids = Done s1"
    and rest: "precondition_loop qs (fst s1) (snd s1) = Done s"
    by (auto split: outcome.splits)
  from update_current_state_ids_kept [OF s1]
  have k1: "inv_object ids \<subseteq> inv_object (snd s1)"
    "inv_object_relation ids \<subseteq> inv_object_relation (snd s1)"
    "inv_object_attribute_value ids \<subseteq> inv_object_attribute_value (snd s1)"
    by simp_all
  from Cons.IH [OF rest]
  have t: "\<forall>q' \<in> set qs. involves_target q' (snd s)"
    and k2: "inv_object (snd s1) \<subseteq> inv_object (snd s)"
    "inv_object_relation (snd s1) \<subseteq> inv_object_relation (snd s)"
    "inv_object_attribute_value (snd s1) \<subseteq> inv_object_attribute_value (snd s)"
    by simp_all
  from update_current_state_involves_target [OF s1] have "involves_target q (snd s1)" .
  from involves_target_mono [OF this k2] have q: "involves_target q (snd s)" .
  have 1: "\<forall>q' \<in> set (q # qs). involves_target q' (snd s)" using q t by simp
  have 2: "inv_object ids \<subseteq> inv_object (snd s)" using k1(1) k2(1) by (rule subset_trans)
  have 3: "inv_object_relation ids \<subseteq> inv_object_relation (snd s)"
    using k1(2) k2(2) by (rule subset_trans)
  have 4: "inv_object_attribute_value ids \<subseteq> inv_object_attribute_value (snd s)"
    using k1(3) k2(3) by (rule subset_trans)
  show ?case by (intro conjI 1 2 3 4)
qed

text \<open>
  C9. Within one event, an \<^verbatim>\<open>involve_*\<close> qualifier raises exactly when its target is
  missing or dead or its id is already in the involved ids of its kind. That set is the one
  the earlier qualifiers of the event have filled: every qualifier that returns, of any
  kind, leaves its own target id in the involved ids and keeps every id that was there; so
  after any list of qualifiers the loop has run from the fresh set of the event, the
  involved ids hold the target id of each of them. And whether a create, delete or modify
  qualifier raises, and the state it leaves, do not depend on the involved ids at all.
\<close>

theorem involvement_asymmetry:
  "is_Raised (update_current_state (involve_object i) c ids) =
     (object_missing_or_dead c i \<or> i \<in> inv_object ids) \<and>
   is_Raised (update_current_state (involve_object_relation i) c ids) =
     (object_relation_missing_or_dead c i \<or> i \<in> inv_object_relation ids) \<and>
   is_Raised (update_current_state (involve_object_attribute_value i) c ids) =
     (object_attribute_value_missing_or_dead c i \<or> i \<in> inv_object_attribute_value ids) \<and>
   (update_current_state q c ids = Done s \<longrightarrow> involves_target q (snd s)) \<and>
   (update_current_state q c ids = Done s \<longrightarrow>
      inv_object ids \<subseteq> inv_object (snd s) \<and>
      inv_object_relation ids \<subseteq> inv_object_relation (snd s) \<and>
      inv_object_attribute_value ids \<subseteq> inv_object_attribute_value (snd s)) \<and>
   (precondition_loop qs c0 empty_involved_ids = Done s0 \<longrightarrow>
      (\<forall>q' \<in> set qs. involves_target q' (snd s0))) \<and>
   (qualifier_type_of q \<noteq> INVOLVE \<longrightarrow>
      is_Raised (update_current_state q c ids) = is_Raised (update_current_state q c ids') \<and>
      fst (state_after (update_current_state q c ids)) =
      fst (state_after (update_current_state q c ids')))"
proof -
  have 1: "is_Raised (update_current_state (involve_object i) c ids) =
     (object_missing_or_dead c i \<or> i \<in> inv_object ids)" by simp
  have 2: "is_Raised (update_current_state (involve_object_relation i) c ids) =
     (object_relation_missing_or_dead c i \<or> i \<in> inv_object_relation ids)" by simp
  have 3: "is_Raised (update_current_state (involve_object_attribute_value i) c ids) =
     (object_attribute_value_missing_or_dead c i \<or> i \<in> inv_object_attribute_value ids)"
    by simp
  have 4: "update_current_state q c ids = Done s \<longrightarrow> involves_target q (snd s)"
    using update_current_state_involves_target [of q c ids s] by blast
  have 5: "update_current_state q c ids = Done s \<longrightarrow>
      inv_object ids \<subseteq> inv_object (snd s) \<and>
      inv_object_relation ids \<subseteq> inv_object_relation (snd s) \<and>
      inv_object_attribute_value ids \<subseteq> inv_object_attribute_value (snd s)"
    using update_current_state_ids_kept [of q c ids s] by blast
  have 6: "precondition_loop qs c0 empty_involved_ids = Done s0 \<longrightarrow>
      (\<forall>q' \<in> set qs. involves_target q' (snd s0))"
    using precondition_loop_involved [of qs c0 empty_involved_ids s0] by blast
  have 7: "qualifier_type_of q \<noteq> INVOLVE \<longrightarrow>
      is_Raised (update_current_state q c ids) = is_Raised (update_current_state q c ids') \<and>
      fst (state_after (update_current_state q c ids)) =
      fst (state_after (update_current_state q c ids'))"
    using update_current_state_ids_irrelevant [of q c ids ids'] by blast
  show ?thesis by (intro conjI 1 2 3 4 5 6 7)
qed

theorem involvement_asymmetry_witness:
  "\<not> is_Raised (precondition_loop [modify_object ''o1'' ''Robot'']
     (current_state (state_after (insert_event OCED_init scenario_event_1)))
     empty_involved_ids) \<and>
   ''o1'' \<in> inv_object (snd (state_after (precondition_loop [modify_object ''o1'' ''Robot'']
     (current_state (state_after (insert_event OCED_init scenario_event_1)))
     empty_involved_ids))) \<and>
   is_Raised (precondition_loop [modify_object ''o1'' ''Robot'', involve_object ''o1'']
     (current_state (state_after (insert_event OCED_init scenario_event_1)))
     empty_involved_ids) \<and>
   \<not> is_Raised (precondition_loop [involve_object ''o1'', modify_object ''o1'' ''Robot'']
     (current_state (state_after (insert_event OCED_init scenario_event_1)))
     empty_involved_ids) \<and>
   is_Raised (precondition_loop
     [involve_object ''o1'', create_object ''o2'' ''Order'', involve_object ''o1'']
     (current_state (state_after (insert_event OCED_init scenario_event_1)))
     empty_involved_ids) \<and>
   \<not> is_Raised (precondition_loop
     [modify_object ''o1'' ''Robot'', modify_object ''o1'' ''Person'']
     (current_state (state_after (insert_event OCED_init scenario_event_1)))
     empty_involved_ids)"
proof -
  let ?c = "current_state (state_after (insert_event OCED_init scenario_event_1))"
  let ?q = "modify_object ''o1'' ''Robot''"
  let ?s = "state_after (precondition_loop [?q] ?c empty_involved_ids)"
  have r: "precondition_loop [?q] ?c empty_involved_ids = Done ?s"
    by (simp add: event_defs scenario_defs add_defs)
  have n: "\<not> is_Raised (precondition_loop [?q] ?c empty_involved_ids)"
    by (simp add: event_defs scenario_defs add_defs)
  note inst = involvement_asymmetry
    [where i = "''o1''" and c = "fst ?s" and ids = "snd ?s" and qs = "[?q]"
       and ?c0.0 = ?c and ?s0.0 = ?s]
  note loop = inst [THEN conjunct2, THEN conjunct2, THEN conjunct2, THEN conjunct2,
      THEN conjunct2, THEN conjunct1, THEN mp, OF r]
  from loop have "involves_target ?q (snd ?s)" by simp
  then have in_set: "''o1'' \<in> inv_object (snd ?s)" by simp
  have raised: "is_Raised (update_current_state (involve_object ''o1'') (fst ?s) (snd ?s))"
    unfolding inst [THEN conjunct1] using in_set by (rule disjI2)
  have split: "precondition_loop [?q, involve_object ''o1''] ?c empty_involved_ids =
      precondition_loop [involve_object ''o1''] (fst ?s) (snd ?s)"
    by (simp add: event_defs scenario_defs add_defs)
  have a: "is_Raised (precondition_loop [?q, involve_object ''o1''] ?c empty_involved_ids)"
    unfolding split using raised
    by (cases "update_current_state (involve_object ''o1'') (fst ?s) (snd ?s)")
       (simp_all only: precondition_loop.simps outcome.case is_Raised.simps)
  have b: "\<not> is_Raised (precondition_loop [involve_object ''o1'', ?q] ?c empty_involved_ids)"
    by (simp add: event_defs scenario_defs add_defs)
  have d: "is_Raised (precondition_loop
     [involve_object ''o1'', create_object ''o2'' ''Order'', involve_object ''o1'']
     ?c empty_involved_ids)"
    by (simp add: event_defs scenario_defs add_defs)
  have e: "\<not> is_Raised (precondition_loop [?q, modify_object ''o1'' ''Person'']
     ?c empty_involved_ids)"
    by (simp add: event_defs scenario_defs add_defs)
  show ?thesis by (intro conjI n in_set a b d e)
qed

subsection \<open>Counter density\<close>

lemma execute_event_tables_fields:
  "event_counter (execute_event_tables m e) = event_counter m"
  "tbl_event (execute_event_tables m e) =
     tbl_event m @ [(event_counter m, event_type e, event_time e)]"
  "tbl_event_time (execute_event_tables m e) = tbl_event_time m @ [event_time e]"
  "tbl_event_x_object (execute_event_tables m e) = tbl_event_x_object m"
  "tbl_event_x_object_relation (execute_event_tables m e) = tbl_event_x_object_relation m"
  "tbl_event_x_object_attribute_value (execute_event_tables m e) =
     tbl_event_x_object_attribute_value m"
  "event_log (execute_event_tables m e) = event_log m"
  "tbl_object_type (execute_event_tables m e) = tbl_object_type m"
  "tbl_object_relation_type (execute_event_tables m e) = tbl_object_relation_type m"
  "tbl_object_attribute_name (execute_event_tables m e) = tbl_object_attribute_name m"
  by (simp_all add: execute_event_tables_def Let_def)

lemma execute_event_tables_lookup:
  "tbl_event_type (execute_event_tables m e) =
     (if event_type e \<in> set (tbl_event_type m) then tbl_event_type m
      else tbl_event_type m @ [event_type e])"
  "tbl_event_attribute_name (execute_event_tables m e) =
     tbl_event_attribute_name m @
       filter (\<lambda>n. n \<notin> set (tbl_event_attribute_name m)) (map fst (event_attributes e))"
  by (simp_all add: execute_event_tables_def Let_def)

text \<open>The tables of the model that an accepted event leaves, in terms of the model
  before the call.\<close>

lemma insert_event_Done_tables:
  assumes "insert_event m e = Done m'"
  shows "event_counter m' = event_counter m + 1"
    and "tbl_event m' = tbl_event m @ [(event_counter m, event_type e, event_time e)]"
    and "tbl_event_time m' = tbl_event_time m @ [event_time e]"
    and "fst ` set (tbl_event_x_object m') \<subseteq>
           insert (event_counter m) (fst ` set (tbl_event_x_object m))"
    and "fst ` set (tbl_event_x_object_relation m') \<subseteq>
           insert (event_counter m) (fst ` set (tbl_event_x_object_relation m))"
    and "fst ` set (tbl_event_x_object_attribute_value m') \<subseteq>
           insert (event_counter m) (fst ` set (tbl_event_x_object_attribute_value m))"
    and "event_log m' = (event_log m)(event_counter m \<mapsto> map qualifier_log (qualifiers e))"
proof -
  from insert_event_Done [OF assms] obtain s m1 where
    fr: "tables_frame (execute_event_tables m e) m1"
    and m': "m' = (log_event m1 e)\<lparr>event_counter := event_counter m1 + 1\<rparr>"
    by blast
  note f = fr [unfolded tables_frame_def execute_event_tables_fields]
  from f have c: "event_counter m1 = event_counter m" by simp
  show "event_counter m' = event_counter m + 1"
    using c by (simp add: m' log_event_def)
  show "tbl_event m' = tbl_event m @ [(event_counter m, event_type e, event_time e)]"
    using f by (simp add: m' log_event_def)
  show "tbl_event_time m' = tbl_event_time m @ [event_time e]"
    using f by (simp add: m' log_event_def)
  show "fst ` set (tbl_event_x_object m') \<subseteq>
          insert (event_counter m) (fst ` set (tbl_event_x_object m))"
    using f by (simp add: m' log_event_def)
  show "fst ` set (tbl_event_x_object_relation m') \<subseteq>
          insert (event_counter m) (fst ` set (tbl_event_x_object_relation m))"
    using f by (simp add: m' log_event_def)
  show "fst ` set (tbl_event_x_object_attribute_value m') \<subseteq>
          insert (event_counter m) (fst ` set (tbl_event_x_object_attribute_value m))"
    using f by (simp add: m' log_event_def)
  show "event_log m' = (event_log m)(event_counter m \<mapsto> map qualifier_log (qualifiers e))"
    using f c by (simp add: m' log_event_def)
qed

lemma event_counter_insert_events:
  "event_counter (insert_events m es) = event_counter m + successful_inserts m es"
proof (induction es arbitrary: m)
  case Nil
  then show ?case by simp
next
  case (Cons e es)
  show ?case
  proof (cases "insert_event m e")
    case (Done m')
    from insert_event_Done_tables(1) [OF Done] Done Cons.IH [of m'] show ?thesis by simp
  next
    case (Raised err m')
    from insert_event_Raised [OF Raised] Raised Cons.IH [of m] show ?thesis by simp
  qed
qed

text \<open>The event ids of the event table are the numbers below the counter, in order; the
  keys of the log are these numbers; every event id of a junction table is one of them.\<close>

lemma counter_dense_step:
  assumes "insert_event m e = Done m'"
    and "map fst (tbl_event m) = [0..<event_counter m] \<and>
         dom (event_log m) = {0..<event_counter m} \<and>
         fst ` set (tbl_event_x_object m) \<subseteq> {0..<event_counter m} \<and>
         fst ` set (tbl_event_x_object_relation m) \<subseteq> {0..<event_counter m} \<and>
         fst ` set (tbl_event_x_object_attribute_value m) \<subseteq> {0..<event_counter m}"
  shows "map fst (tbl_event m') = [0..<event_counter m'] \<and>
         dom (event_log m') = {0..<event_counter m'} \<and>
         fst ` set (tbl_event_x_object m') \<subseteq> {0..<event_counter m'} \<and>
         fst ` set (tbl_event_x_object_relation m') \<subseteq> {0..<event_counter m'} \<and>
         fst ` set (tbl_event_x_object_attribute_value m') \<subseteq> {0..<event_counter m'}"
proof -
  note t = insert_event_Done_tables [OF assms(1)]
  have up: "A' \<subseteq> {0..<k + 1}" if "A' \<subseteq> insert k A" "A \<subseteq> {0..<k}"
    for A A' :: "nat set" and k
  proof
    fix x assume "x \<in> A'"
    with that(1) have "x = k \<or> x \<in> A" by blast
    moreover have "x < k" if "x \<in> A" using that \<open>A \<subseteq> {0..<k}\<close> by (auto dest: subsetD)
    ultimately have "x < k + 1" by auto
    then show "x \<in> {0..<k + 1}" by simp
  qed
  from assms(2) have a: "map fst (tbl_event m) = [0..<event_counter m]"
    "dom (event_log m) = {0..<event_counter m}"
    "fst ` set (tbl_event_x_object m) \<subseteq> {0..<event_counter m}"
    "fst ` set (tbl_event_x_object_relation m) \<subseteq> {0..<event_counter m}"
    "fst ` set (tbl_event_x_object_attribute_value m) \<subseteq> {0..<event_counter m}"
    by simp_all
  have 1: "map fst (tbl_event m') = [0..<event_counter m']"
    by (simp add: t(1) t(2) a(1))
  have 2: "dom (event_log m') = {0..<event_counter m'}"
    by (simp add: t(1) t(7) a(2) atLeast0_lessThan_Suc)
  have 3: "fst ` set (tbl_event_x_object m') \<subseteq> {0..<event_counter m'}"
    unfolding t(1) by (rule up [OF t(4) a(3)])
  have 4: "fst ` set (tbl_event_x_object_relation m') \<subseteq> {0..<event_counter m'}"
    unfolding t(1) by (rule up [OF t(5) a(4)])
  have 5: "fst ` set (tbl_event_x_object_attribute_value m') \<subseteq> {0..<event_counter m'}"
    unfolding t(1) by (rule up [OF t(6) a(5)])
  show ?thesis by (intro conjI 1 2 3 4 5)
qed

lemma counter_dense_insert_events:
  "map fst (tbl_event (insert_events OCED_init es)) = [0..<event_counter (insert_events OCED_init es)] \<and>
   dom (event_log (insert_events OCED_init es)) = {0..<event_counter (insert_events OCED_init es)} \<and>
   fst ` set (tbl_event_x_object (insert_events OCED_init es)) \<subseteq>
     {0..<event_counter (insert_events OCED_init es)} \<and>
   fst ` set (tbl_event_x_object_relation (insert_events OCED_init es)) \<subseteq>
     {0..<event_counter (insert_events OCED_init es)} \<and>
   fst ` set (tbl_event_x_object_attribute_value (insert_events OCED_init es)) \<subseteq>
     {0..<event_counter (insert_events OCED_init es)}"
proof (rule insert_events_invariant
    [where P = "\<lambda>m. map fst (tbl_event m) = [0..<event_counter m] \<and>
         dom (event_log m) = {0..<event_counter m} \<and>
         fst ` set (tbl_event_x_object m) \<subseteq> {0..<event_counter m} \<and>
         fst ` set (tbl_event_x_object_relation m) \<subseteq> {0..<event_counter m} \<and>
         fst ` set (tbl_event_x_object_attribute_value m) \<subseteq> {0..<event_counter m}"])
  show "map fst (tbl_event OCED_init) = [0..<event_counter OCED_init] \<and>
        dom (event_log OCED_init) = {0..<event_counter OCED_init} \<and>
        fst ` set (tbl_event_x_object OCED_init) \<subseteq> {0..<event_counter OCED_init} \<and>
        fst ` set (tbl_event_x_object_relation OCED_init) \<subseteq> {0..<event_counter OCED_init} \<and>
        fst ` set (tbl_event_x_object_attribute_value OCED_init) \<subseteq> {0..<event_counter OCED_init}"
    by (simp add: OCED_init_def)
qed (rule counter_dense_step)

text \<open>
  C8. From a fresh model, after any sequence of \<^verbatim>\<open>insert_event\<close> calls of which \<open>N\<close>
  returned (the others having raised), the event counter is \<open>N\<close>; the event ids of the
  event table are \<open>0, ..., N - 1\<close>, each once and in order; every event id of the three
  junction tables is below \<open>N\<close>; so the event ids of these four tables together are exactly
  the integers \<open>0..N-1\<close>. (A junction table alone holds an id only if the event had a
  qualifier about an entity of that kind.)
\<close>

theorem counter_density:
  "event_counter (insert_events OCED_init es) = successful_inserts OCED_init es \<and>
   map fst (tbl_event (insert_events OCED_init es)) = [0..<successful_inserts OCED_init es] \<and>
   fst ` set (tbl_event_x_object (insert_events OCED_init es)) \<subseteq>
     {0..<successful_inserts OCED_init es} \<and>
   fst ` set (tbl_event_x_object_relation (insert_events OCED_init es)) \<subseteq>
     {0..<successful_inserts OCED_init es} \<and>
   fst ` set (tbl_event_x_object_attribute_value (insert_events OCED_init es)) \<subseteq>
     {0..<successful_inserts OCED_init es} \<and>
   fst ` set (tbl_event (insert_events OCED_init es)) \<union>
   fst ` set (tbl_event_x_object (insert_events OCED_init es)) \<union>
   fst ` set (tbl_event_x_object_relation (insert_events OCED_init es)) \<union>
   fst ` set (tbl_event_x_object_attribute_value (insert_events OCED_init es)) =
     {0..<successful_inserts OCED_init es}"
proof -
  let ?m = "insert_events OCED_init es"
  have n: "event_counter ?m = successful_inserts OCED_init es"
    using event_counter_insert_events [of OCED_init es] by (simp add: OCED_init_def)
  note d = counter_dense_insert_events [of es, unfolded n]
  from d have ev: "map fst (tbl_event ?m) = [0..<successful_inserts OCED_init es]"
    by (rule conjunct1)
  from d have j1: "fst ` set (tbl_event_x_object ?m) \<subseteq> {0..<successful_inserts OCED_init es}"
    by simp
  from d have j2: "fst ` set (tbl_event_x_object_relation ?m) \<subseteq>
      {0..<successful_inserts OCED_init es}"
    by simp
  from d have j3: "fst ` set (tbl_event_x_object_attribute_value ?m) \<subseteq>
      {0..<successful_inserts OCED_init es}"
    by simp
  have "set (map fst (tbl_event ?m)) = {0..<successful_inserts OCED_init es}"
    unfolding ev by simp
  then have e: "fst ` set (tbl_event ?m) = {0..<successful_inserts OCED_init es}"
    by simp
  have u: "fst ` set (tbl_event ?m) \<union> fst ` set (tbl_event_x_object ?m) \<union>
      fst ` set (tbl_event_x_object_relation ?m) \<union>
      fst ` set (tbl_event_x_object_attribute_value ?m) = {0..<successful_inserts OCED_init es}"
    unfolding e using j1 j2 j3 by blast
  show ?thesis by (intro conjI n ev j1 j2 j3 u)
qed

subsection \<open>Monotonic time\<close>

lemma max_time_Some:
  "max_time ts = Some mt \<Longrightarrow> ts \<noteq> [] \<and> mt = Max (set ts)"
  by (cases ts) (simp_all add: max_time_def Max.set_eq_fold [symmetric])

lemma max_time_None: "max_time ts = None \<Longrightarrow> ts = []"
  by (cases ts) (auto simp: max_time_def)

text \<open>An accepted event is later than every time of the time table.\<close>

lemma precondition_Done_time:
  assumes "precondition m e = Done s" and "t \<in> set (tbl_event_time m)"
  shows "t < event_time e"
proof (cases "max_time (tbl_event_time m)")
  case None
  from max_time_None [OF this] assms(2) show ?thesis by simp
next
  case (Some mt)
  from max_time_Some [OF this] have mt: "mt = Max (set (tbl_event_time m))" by simp
  from assms(1) Some have "\<not> event_time e \<le> mt"
    by (auto simp: precondition_def split: if_splits)
  then have "mt < event_time e" by simp
  moreover from assms(2) have "t \<le> mt" unfolding mt by simp
  ultimately show ?thesis by simp
qed

lemma time_sorted_step:
  assumes "insert_event m e = Done m'"
    and "map (\<lambda>row. snd (snd row)) (tbl_event m) = tbl_event_time m \<and>
         sorted_wrt (<) (tbl_event_time m)"
  shows "map (\<lambda>row. snd (snd row)) (tbl_event m') = tbl_event_time m' \<and>
         sorted_wrt (<) (tbl_event_time m')"
proof -
  note t = insert_event_Done_tables [OF assms(1)]
  from insert_event_Done [OF assms(1)] obtain s where s: "precondition m e = Done s"
    by blast
  have later: "\<forall>t \<in> set (tbl_event_time m). t < event_time e"
    using precondition_Done_time [OF s] by blast
  have 1: "map (\<lambda>row. snd (snd row)) (tbl_event m') = tbl_event_time m'"
    using assms(2) by (simp add: t(2) t(3))
  have 2: "sorted_wrt (<) (tbl_event_time m')"
    using assms(2) later by (simp add: t(3) sorted_wrt_append)
  show ?thesis by (intro conjI 1 2)
qed

lemma time_sorted_insert_events:
  "map (\<lambda>row. snd (snd row)) (tbl_event (insert_events OCED_init es)) =
     tbl_event_time (insert_events OCED_init es) \<and>
   sorted_wrt (<) (tbl_event_time (insert_events OCED_init es))"
proof (rule insert_events_invariant
    [where P = "\<lambda>m. map (\<lambda>row. snd (snd row)) (tbl_event m) = tbl_event_time m \<and>
         sorted_wrt (<) (tbl_event_time m)"])
  show "map (\<lambda>row. snd (snd row)) (tbl_event OCED_init) = tbl_event_time OCED_init \<and>
        sorted_wrt (<) (tbl_event_time OCED_init)"
    by (simp add: OCED_init_def)
qed (rule time_sorted_step)

lemma insert_event_not_later:
  assumes "tbl_event_time m \<noteq> []" and "event_time e \<le> last (tbl_event_time m)"
  shows "insert_event m e = Raised ValueError m"
proof -
  from assms(1) obtain mt where mt: "max_time (tbl_event_time m) = Some mt"
    by (cases "tbl_event_time m") (auto simp: max_time_def)
  from max_time_Some [OF mt] assms(1) have "last (tbl_event_time m) \<le> mt" by simp
  with assms(2) have "event_time e \<le> mt" by simp
  with mt have "precondition m e = Raised ValueError (current_state m, empty_involved_ids)"
    by (simp add: precondition_def)
  then show ?thesis by (simp add: insert_event_def)
qed

text \<open>
  C6. From a fresh model, after any sequence of \<^verbatim>\<open>insert_event\<close> calls, the (normalised)
  times of the rows of the event table, which are the committed events in commit order,
  increase strictly, in the order in which \<^verbatim>\<open>__precondition\<close> compares them (Python's
  order of strings). And an event whose time is less than or equal to the time of the last
  committed event is rejected with \<^verbatim>\<open>ValueError\<close>, the model staying as it was.
\<close>

theorem monotonic_time:
  "sorted_wrt (<) (map (\<lambda>row. snd (snd row)) (tbl_event (insert_events OCED_init es))) \<and>
   (tbl_event (insert_events OCED_init es) \<noteq> [] \<and>
    event_time e \<le> snd (snd (last (tbl_event (insert_events OCED_init es)))) \<longrightarrow>
    insert_event (insert_events OCED_init es) e =
      Raised ValueError (insert_events OCED_init es))"
proof -
  let ?m = "insert_events OCED_init es"
  from time_sorted_insert_events [of es]
  have eq: "map (\<lambda>row. snd (snd row)) (tbl_event ?m) = tbl_event_time ?m"
    and so: "sorted_wrt (<) (tbl_event_time ?m)"
    by simp_all
  have 1: "sorted_wrt (<) (map (\<lambda>row. snd (snd row)) (tbl_event ?m))"
    unfolding eq by (rule so)
  have 2: "insert_event ?m e = Raised ValueError ?m"
    if "tbl_event ?m \<noteq> []" "event_time e \<le> snd (snd (last (tbl_event ?m)))"
  proof -
    from that(1) eq have ne: "tbl_event_time ?m \<noteq> []" by (metis map_is_Nil_conv)
    from that(1) have "last (map (\<lambda>row. snd (snd row)) (tbl_event ?m)) =
        snd (snd (last (tbl_event ?m)))"
      by (simp add: last_map)
    with eq that(2) have "event_time e \<le> last (tbl_event_time ?m)" by simp
    from insert_event_not_later [OF ne this] show ?thesis .
  qed
  from 1 2 show ?thesis by blast
qed

theorem monotonic_time_witness:
  "tbl_event (insert_events OCED_init [scenario_event_1, scenario_event_2]) \<noteq> [] \<and>
   event_time scenario_event_1 \<le>
     snd (snd (last (tbl_event (insert_events OCED_init [scenario_event_1, scenario_event_2])))) \<and>
   insert_event (insert_events OCED_init [scenario_event_1, scenario_event_2]) scenario_event_1 =
     Raised ValueError (insert_events OCED_init [scenario_event_1, scenario_event_2]) \<and>
   map (\<lambda>row. snd (snd row)) (tbl_event (insert_events OCED_init [scenario_event_1, scenario_event_2])) =
     [''2024-01-01T09:00:00'', ''2024-01-02T09:00:00'']"
proof -
  let ?m = "insert_events OCED_init [scenario_event_1, scenario_event_2]"
  have t: "tbl_event ?m =
      [(0, ''register'', ''2024-01-01T09:00:00''), (1, ''register'', ''2024-01-02T09:00:00'')]"
    by (simp add: event_defs scenario_defs add_defs)
  have h1: "tbl_event ?m \<noteq> []" unfolding t by simp
  have h2: "event_time scenario_event_1 \<le> snd (snd (last (tbl_event ?m)))"
    unfolding t by (simp add: scenario_event_1_def)
  from monotonic_time [of "[scenario_event_1, scenario_event_2]" scenario_event_1] h1 h2
  have r: "insert_event ?m scenario_event_1 = Raised ValueError ?m" by blast
  have 4: "map (\<lambda>row. snd (snd row)) (tbl_event ?m) =
      [''2024-01-01T09:00:00'', ''2024-01-02T09:00:00'']"
    unfolding t by simp
  show ?thesis by (intro conjI h1 h2 r 4)
qed

subsection \<open>Lookup tables\<close>

lemma lookup_distinct_step:
  assumes "insert_event m e = Done m'" and "event_attributes_is_dict e"
    and "distinct (tbl_event_type m) \<and> distinct (tbl_event_attribute_name m) \<and>
         distinct (tbl_object_type m) \<and> distinct (tbl_object_relation_type m) \<and>
         distinct (tbl_object_attribute_name m)"
  shows "distinct (tbl_event_type m') \<and> distinct (tbl_event_attribute_name m') \<and>
         distinct (tbl_object_type m') \<and> distinct (tbl_object_relation_type m') \<and>
         distinct (tbl_object_attribute_name m')"
proof -
  from insert_event_Done [OF assms(1)] obtain s m1 where
    fr: "tables_frame (execute_event_tables m e) m1"
    and m': "m' = (log_event m1 e)\<lparr>event_counter := event_counter m1 + 1\<rparr>"
    by blast
  note f = fr [unfolded tables_frame_def execute_event_tables_fields]
  from assms(3) have a: "distinct (tbl_event_type m)" "distinct (tbl_event_attribute_name m)"
    "distinct (tbl_object_type m)" "distinct (tbl_object_relation_type m)"
    "distinct (tbl_object_attribute_name m)"
    by simp_all
  from f have e1: "tbl_event_type m1 = tbl_event_type (execute_event_tables m e)"
    and e2: "tbl_event_attribute_name m1 = tbl_event_attribute_name (execute_event_tables m e)"
    by simp_all
  have 1: "distinct (tbl_event_type m')"
    using a(1) by (simp add: m' log_event_def e1 execute_event_tables_lookup)
  have 2: "distinct (tbl_event_attribute_name m')"
    using a(2) assms(2)
    by (auto simp: m' log_event_def e2 execute_event_tables_lookup event_attributes_is_dict_def)
  from f a(3) have 3: "distinct (tbl_object_type m')"
    by (simp add: m' log_event_def)
  from f a(4) have 4: "distinct (tbl_object_relation_type m')"
    by (simp add: m' log_event_def)
  from f a(5) have 5: "distinct (tbl_object_attribute_name m')"
    by (simp add: m' log_event_def)
  show ?thesis by (intro conjI 1 2 3 4 5)
qed

text \<open>
  C10. From a fresh model, after any sequence of \<^verbatim>\<open>insert_event\<close> calls (accepted or
  rejected) with events whose \<^verbatim>\<open>event_attributes\<close> are dictionaries, no value occurs twice
  in any of the lookup tables \<^verbatim>\<open>event_type\<close>, \<^verbatim>\<open>event_attribute_name\<close>, \<^verbatim>\<open>object_type\<close>,
  \<^verbatim>\<open>object_relation_type\<close> and \<^verbatim>\<open>object_attribute_name\<close>.
\<close>

theorem lookup_tables_deduplicated:
  assumes "\<forall>e \<in> set es. event_attributes_is_dict e"
  shows "distinct (tbl_event_type (insert_events OCED_init es)) \<and>
         distinct (tbl_event_attribute_name (insert_events OCED_init es)) \<and>
         distinct (tbl_object_type (insert_events OCED_init es)) \<and>
         distinct (tbl_object_relation_type (insert_events OCED_init es)) \<and>
         distinct (tbl_object_attribute_name (insert_events OCED_init es))"
proof (rule insert_events_invariant
    [where P = "\<lambda>m. distinct (tbl_event_type m) \<and> distinct (tbl_event_attribute_name m) \<and>
         distinct (tbl_object_type m) \<and> distinct (tbl_object_relation_type m) \<and>
         distinct (tbl_object_attribute_name m)"])
  show "distinct (tbl_event_type OCED_init) \<and> distinct (tbl_event_attribute_name OCED_init) \<and>
        distinct (tbl_object_type OCED_init) \<and> distinct (tbl_object_relation_type OCED_init) \<and>
        distinct (tbl_object_attribute_name OCED_init)"
    by (simp add: OCED_init_def)
next
  fix m e m'
  assume p: "distinct (tbl_event_type m) \<and> distinct (tbl_event_attribute_name m) \<and>
         distinct (tbl_object_type m) \<and> distinct (tbl_object_relation_type m) \<and>
         distinct (tbl_object_attribute_name m)"
    and e: "e \<in> set es" and d: "insert_event m e = Done m'"
  from assms e have "event_attributes_is_dict e" by blast
  from lookup_distinct_step [OF d this p]
  show "distinct (tbl_event_type m') \<and> distinct (tbl_event_attribute_name m') \<and>
         distinct (tbl_object_type m') \<and> distinct (tbl_object_relation_type m') \<and>
         distinct (tbl_object_attribute_name m')" .
qed

theorem lookup_tables_deduplicated_witness:
  "event_attributes_is_dict scenario_event_1 \<and> event_attributes_is_dict scenario_event_2 \<and>
   successful_inserts OCED_init [scenario_event_1, scenario_event_2] = 2 \<and>
   tbl_event_type (insert_events OCED_init [scenario_event_1, scenario_event_2]) = [''register''] \<and>
   distinct (tbl_event_type (insert_events OCED_init [scenario_event_1, scenario_event_2])) \<and>
   distinct (tbl_object_type (insert_events OCED_init [scenario_event_1, scenario_event_2]))"
proof -
  let ?es = "[scenario_event_1, scenario_event_2]"
  have h: "\<forall>e \<in> set ?es. event_attributes_is_dict e"
    by (simp add: event_attributes_is_dict_def scenario_defs)
  have n: "successful_inserts OCED_init ?es = 2"
    by (simp add: event_defs scenario_defs add_defs)
  have t: "tbl_event_type (insert_events OCED_init ?es) = [''register'']"
    by (simp add: event_defs scenario_defs add_defs)
  from lookup_tables_deduplicated [OF h]
  have d: "distinct (tbl_event_type (insert_events OCED_init ?es))"
    "distinct (tbl_object_type (insert_events OCED_init ?es))"
    by blast+
  have h1: "event_attributes_is_dict scenario_event_1"
    and h2: "event_attributes_is_dict scenario_event_2"
    using h by simp_all
  show ?thesis by (intro conjI h1 h2 n t d)
qed

subsection \<open>The cascade of \<^verbatim>\<open>delete_object\<close>\<close>

lemma object_relation_state_dead [simp]:
  "\<not> rel_existency rel \<Longrightarrow> rel\<lparr>rel_existency := False\<rparr> = rel"
  by (cases rel) simp

lemma object_attribute_value_state_dead [simp]:
  "\<not> oav_existency av \<Longrightarrow> av\<lparr>oav_existency := False\<rparr> = av"
  by (cases av) simp

text \<open>When every id of the list is a key, the loop returns; it sets the flag of every
  listed relation to false and records those that were live.\<close>

lemma cascade_object_relations_result:
  assumes "set rs \<subseteq> dom (cs_object_relation c)"
  shows "\<exists>s. cascade_object_relations rs c ids = Done s \<and>
           cs_object (fst s) = cs_object c \<and>
           cs_object_attribute_value (fst s) = cs_object_attribute_value c \<and>
           (\<forall>r. cs_object_relation (fst s) r =
                  (if r \<in> set rs
                   then map_option (\<lambda>rel. rel\<lparr>rel_existency := False\<rparr>) (cs_object_relation c r)
                   else cs_object_relation c r)) \<and>
           inv_object (snd s) = inv_object ids \<and>
           inv_object_attribute_value (snd s) = inv_object_attribute_value ids \<and>
           inv_object_relation (snd s) =
             inv_object_relation ids \<union> {r \<in> set rs. \<not> object_relation_missing_or_dead c r}"
  using assms
proof (induction rs arbitrary: c ids)
  case Nil
  then show ?case by simp
next
  case (Cons r rs)
  from Cons.prems obtain rel where rel: "cs_object_relation c r = Some rel" by auto
  show ?case
  proof (cases "rel_existency rel")
    case False
    from Cons.prems have "set rs \<subseteq> dom (cs_object_relation c)" by simp
    from Cons.IH [OF this, of ids] obtain s where
      s: "cascade_object_relations rs c ids = Done s" "cs_object (fst s) = cs_object c"
        "cs_object_attribute_value (fst s) = cs_object_attribute_value c"
        "\<forall>x. cs_object_relation (fst s) x =
              (if x \<in> set rs
               then map_option (\<lambda>rel. rel\<lparr>rel_existency := False\<rparr>) (cs_object_relation c x)
               else cs_object_relation c x)"
        "inv_object (snd s) = inv_object ids"
        "inv_object_attribute_value (snd s) = inv_object_attribute_value ids"
        "inv_object_relation (snd s) =
           inv_object_relation ids \<union> {x \<in> set rs. \<not> object_relation_missing_or_dead c x}"
      by (elim exE conjE) (rule that, assumption+)
    have 1: "cascade_object_relations (r # rs) c ids = Done s"
      using rel False s(1) by simp
    have 2: "\<forall>x. cs_object_relation (fst s) x =
              (if x \<in> set (r # rs)
               then map_option (\<lambda>rel. rel\<lparr>rel_existency := False\<rparr>) (cs_object_relation c x)
               else cs_object_relation c x)"
      using s(4) rel False by simp
    have 3: "inv_object_relation (snd s) =
           inv_object_relation ids \<union> {x \<in> set (r # rs). \<not> object_relation_missing_or_dead c x}"
      using s(7) rel False by (auto simp: object_relation_missing_or_dead_def)
    show ?thesis
      by (intro exI [of _ s] conjI 1 2 3) (simp_all add: s(2,3,5,6))
  next
    case True
    let ?c' = "c\<lparr>cs_object_relation := (cs_object_relation c)(r \<mapsto> rel\<lparr>rel_existency := False\<rparr>)\<rparr>"
    let ?ids' = "ids\<lparr>inv_object_relation := insert r (inv_object_relation ids)\<rparr>"
    from Cons.prems have "set rs \<subseteq> dom (cs_object_relation ?c')" by auto
    from Cons.IH [OF this, of ?ids'] obtain s where
      s: "cascade_object_relations rs ?c' ?ids' = Done s" "cs_object (fst s) = cs_object ?c'"
        "cs_object_attribute_value (fst s) = cs_object_attribute_value ?c'"
        "\<forall>x. cs_object_relation (fst s) x =
              (if x \<in> set rs
               then map_option (\<lambda>rel. rel\<lparr>rel_existency := False\<rparr>) (cs_object_relation ?c' x)
               else cs_object_relation ?c' x)"
        "inv_object (snd s) = inv_object ?ids'"
        "inv_object_attribute_value (snd s) = inv_object_attribute_value ?ids'"
        "inv_object_relation (snd s) =
           inv_object_relation ?ids' \<union> {x \<in> set rs. \<not> object_relation_missing_or_dead ?c' x}"
      by (elim exE conjE) (rule that, assumption+)
    have 1: "cascade_object_relations (r # rs) c ids = Done s"
      using rel True s(1) by simp
    have 2: "\<forall>x. cs_object_relation (fst s) x =
              (if x \<in> set (r # rs)
               then map_option (\<lambda>rel. rel\<lparr>rel_existency := False\<rparr>) (cs_object_relation c x)
               else cs_object_relation c x)"
      using s(4) rel by simp
    have 3: "inv_object_relation (snd s) =
           inv_object_relation ids \<union> {x \<in> set (r # rs). \<not> object_relation_missing_or_dead c x}"
      using s(7) rel True by (auto simp: object_relation_missing_or_dead_def)
    show ?thesis
      by (intro exI [of _ s] conjI 1 2 3) (simp_all add: s(2,3,5,6))
  qed
qed

lemma cascade_object_attribute_values_result:
  assumes "set avs \<subseteq> dom (cs_object_attribute_value c)"
  shows "\<exists>s. cascade_object_attribute_values avs c ids = Done s \<and>
           cs_object (fst s) = cs_object c \<and>
           cs_object_relation (fst s) = cs_object_relation c \<and>
           (\<forall>a. cs_object_attribute_value (fst s) a =
                  (if a \<in> set avs
                   then map_option (\<lambda>av. av\<lparr>oav_existency := False\<rparr>) (cs_object_attribute_value c a)
                   else cs_object_attribute_value c a)) \<and>
           inv_object (snd s) = inv_object ids \<and>
           inv_object_relation (snd s) = inv_object_relation ids \<and>
           inv_object_attribute_value (snd s) =
             inv_object_attribute_value ids \<union>
               {a \<in> set avs. \<not> object_attribute_value_missing_or_dead c a}"
  using assms
proof (induction avs arbitrary: c ids)
  case Nil
  then show ?case by simp
next
  case (Cons r rs)
  from Cons.prems obtain av where av: "cs_object_attribute_value c r = Some av" by auto
  show ?case
  proof (cases "oav_existency av")
    case False
    from Cons.prems have "set rs \<subseteq> dom (cs_object_attribute_value c)" by simp
    from Cons.IH [OF this, of ids] obtain s where
      s: "cascade_object_attribute_values rs c ids = Done s" "cs_object (fst s) = cs_object c"
        "cs_object_relation (fst s) = cs_object_relation c"
        "\<forall>x. cs_object_attribute_value (fst s) x =
              (if x \<in> set rs
               then map_option (\<lambda>av. av\<lparr>oav_existency := False\<rparr>) (cs_object_attribute_value c x)
               else cs_object_attribute_value c x)"
        "inv_object (snd s) = inv_object ids"
        "inv_object_relation (snd s) = inv_object_relation ids"
        "inv_object_attribute_value (snd s) =
           inv_object_attribute_value ids \<union>
             {x \<in> set rs. \<not> object_attribute_value_missing_or_dead c x}"
      by (elim exE conjE) (rule that, assumption+)
    have 1: "cascade_object_attribute_values (r # rs) c ids = Done s"
      using av False s(1) by simp
    have 2: "\<forall>x. cs_object_attribute_value (fst s) x =
              (if x \<in> set (r # rs)
               then map_option (\<lambda>av. av\<lparr>oav_existency := False\<rparr>) (cs_object_attribute_value c x)
               else cs_object_attribute_value c x)"
      using s(4) av False by simp
    have 3: "inv_object_attribute_value (snd s) =
           inv_object_attribute_value ids \<union>
             {x \<in> set (r # rs). \<not> object_attribute_value_missing_or_dead c x}"
      using s(7) av False by (auto simp: object_attribute_value_missing_or_dead_def)
    show ?thesis
      by (intro exI [of _ s] conjI 1 2 3) (simp_all add: s(2,3,5,6))
  next
    case True
    let ?c' = "c\<lparr>cs_object_attribute_value :=
                  (cs_object_attribute_value c)(r \<mapsto> av\<lparr>oav_existency := False\<rparr>)\<rparr>"
    let ?ids' = "ids\<lparr>inv_object_attribute_value := insert r (inv_object_attribute_value ids)\<rparr>"
    from Cons.prems have "set rs \<subseteq> dom (cs_object_attribute_value ?c')" by auto
    from Cons.IH [OF this, of ?ids'] obtain s where
      s: "cascade_object_attribute_values rs ?c' ?ids' = Done s" "cs_object (fst s) = cs_object ?c'"
        "cs_object_relation (fst s) = cs_object_relation ?c'"
        "\<forall>x. cs_object_attribute_value (fst s) x =
              (if x \<in> set rs
               then map_option (\<lambda>av. av\<lparr>oav_existency := False\<rparr>) (cs_object_attribute_value ?c' x)
               else cs_object_attribute_value ?c' x)"
        "inv_object (snd s) = inv_object ?ids'"
        "inv_object_relation (snd s) = inv_object_relation ?ids'"
        "inv_object_attribute_value (snd s) =
           inv_object_attribute_value ?ids' \<union>
             {x \<in> set rs. \<not> object_attribute_value_missing_or_dead ?c' x}"
      by (elim exE conjE) (rule that, assumption+)
    have 1: "cascade_object_attribute_values (r # rs) c ids = Done s"
      using av True s(1) by simp
    have 2: "\<forall>x. cs_object_attribute_value (fst s) x =
              (if x \<in> set (r # rs)
               then map_option (\<lambda>av. av\<lparr>oav_existency := False\<rparr>) (cs_object_attribute_value c x)
               else cs_object_attribute_value c x)"
      using s(4) av by simp
    have 3: "inv_object_attribute_value (snd s) =
           inv_object_attribute_value ids \<union>
             {x \<in> set (r # rs). \<not> object_attribute_value_missing_or_dead c x}"
      using s(7) av True by (auto simp: object_attribute_value_missing_or_dead_def)
    show ?thesis
      by (intro exI [of _ s] conjI 1 2 3) (simp_all add: s(2,3,5,6))
  qed
qed

text \<open>
  C7. In a current state whose back-references resolve, \<^verbatim>\<open>delete_object\<close> on a live
  object returns; it clears the existency of the object and changes nothing else of the
  objects; a relation listed in the object's \<^verbatim>\<open>object_relation_ids\<close> that was live has
  its existency cleared and keeps its other fields, every other relation (not listed, or
  listed and already dead) is as before; the same for the attribute values and
  \<^verbatim>\<open>object_attribute_value_ids\<close>; and the involved ids gain the object and exactly the
  relations and attribute values that were cleared.
\<close>

theorem delete_object_cascade:
  assumes "cs_object c object_id = Some ob" and "obj_existency ob"
    and "set (object_relation_ids ob) \<subseteq> dom (cs_object_relation c)"
    and "set (object_attribute_value_ids ob) \<subseteq> dom (cs_object_attribute_value c)"
  shows "\<exists>c' ids'. update_current_state (delete_object object_id) c ids = Done (c', ids') \<and>
     cs_object c' = (cs_object c)(object_id \<mapsto> ob\<lparr>obj_existency := False\<rparr>) \<and>
     (\<forall>r. cs_object_relation c' r =
        (if r \<in> set (object_relation_ids ob) \<and> \<not> object_relation_missing_or_dead c r
         then map_option (\<lambda>rel. rel\<lparr>rel_existency := False\<rparr>) (cs_object_relation c r)
         else cs_object_relation c r)) \<and>
     (\<forall>a. cs_object_attribute_value c' a =
        (if a \<in> set (object_attribute_value_ids ob) \<and>
            \<not> object_attribute_value_missing_or_dead c a
         then map_option (\<lambda>av. av\<lparr>oav_existency := False\<rparr>) (cs_object_attribute_value c a)
         else cs_object_attribute_value c a)) \<and>
     inv_object ids' = insert object_id (inv_object ids) \<and>
     inv_object_relation ids' = inv_object_relation ids \<union>
       {r \<in> set (object_relation_ids ob). \<not> object_relation_missing_or_dead c r} \<and>
     inv_object_attribute_value ids' = inv_object_attribute_value ids \<union>
       {a \<in> set (object_attribute_value_ids ob). \<not> object_attribute_value_missing_or_dead c a}"
proof -
  let ?c1 = "c\<lparr>cs_object := (cs_object c)(object_id \<mapsto> ob\<lparr>obj_existency := False\<rparr>)\<rparr>"
  let ?ids1 = "ids\<lparr>inv_object := insert object_id (inv_object ids)\<rparr>"
  have r1: "set (object_relation_ids ob) \<subseteq> dom (cs_object_relation ?c1)"
    using assms(3) by simp
  have mr: "object_relation_missing_or_dead ?c1 r = object_relation_missing_or_dead c r" for r
    by (simp add: object_relation_missing_or_dead_def)
  from cascade_object_relations_result [OF r1, of ?ids1] obtain s1 where
    s1: "cascade_object_relations (object_relation_ids ob) ?c1 ?ids1 = Done s1"
      "cs_object (fst s1) = cs_object ?c1"
      "cs_object_attribute_value (fst s1) = cs_object_attribute_value ?c1"
      "\<forall>r. cs_object_relation (fst s1) r =
             (if r \<in> set (object_relation_ids ob)
              then map_option (\<lambda>rel. rel\<lparr>rel_existency := False\<rparr>) (cs_object_relation ?c1 r)
              else cs_object_relation ?c1 r)"
      "inv_object (snd s1) = inv_object ?ids1"
      "inv_object_attribute_value (snd s1) = inv_object_attribute_value ?ids1"
      "inv_object_relation (snd s1) = inv_object_relation ?ids1 \<union>
         {r \<in> set (object_relation_ids ob). \<not> object_relation_missing_or_dead ?c1 r}"
    by (elim exE conjE) (rule that, assumption+)
  have a1: "set (object_attribute_value_ids ob) \<subseteq> dom (cs_object_attribute_value (fst s1))"
    using assms(4) by (simp add: s1(3))
  have ma: "object_attribute_value_missing_or_dead (fst s1) a =
            object_attribute_value_missing_or_dead c a" for a
    by (simp add: object_attribute_value_missing_or_dead_def s1(3))
  from cascade_object_attribute_values_result [OF a1, of "snd s1"] obtain s2 where
    s2: "cascade_object_attribute_values (object_attribute_value_ids ob) (fst s1) (snd s1) = Done s2"
      "cs_object (fst s2) = cs_object (fst s1)"
      "cs_object_relation (fst s2) = cs_object_relation (fst s1)"
      "\<forall>a. cs_object_attribute_value (fst s2) a =
             (if a \<in> set (object_attribute_value_ids ob)
              then map_option (\<lambda>av. av\<lparr>oav_existency := False\<rparr>)
                     (cs_object_attribute_value (fst s1) a)
              else cs_object_attribute_value (fst s1) a)"
      "inv_object (snd s2) = inv_object (snd s1)"
      "inv_object_relation (snd s2) = inv_object_relation (snd s1)"
      "inv_object_attribute_value (snd s2) = inv_object_attribute_value (snd s1) \<union>
         {a \<in> set (object_attribute_value_ids ob).
            \<not> object_attribute_value_missing_or_dead (fst s1) a}"
    by (elim exE conjE) (rule that, assumption+)
  have 1: "update_current_state (delete_object object_id) c ids = Done (fst s2, snd s2)"
    using assms(1,2) s1(1) s2(1) by (simp add: Let_def)
  have 2: "cs_object (fst s2) = (cs_object c)(object_id \<mapsto> ob\<lparr>obj_existency := False\<rparr>)"
    by (simp add: s2(2) s1(2))
  have 3: "\<forall>r. cs_object_relation (fst s2) r =
        (if r \<in> set (object_relation_ids ob) \<and> \<not> object_relation_missing_or_dead c r
         then map_option (\<lambda>rel. rel\<lparr>rel_existency := False\<rparr>) (cs_object_relation c r)
         else cs_object_relation c r)"
  proof
    fix r
    show "cs_object_relation (fst s2) r =
        (if r \<in> set (object_relation_ids ob) \<and> \<not> object_relation_missing_or_dead c r
         then map_option (\<lambda>rel. rel\<lparr>rel_existency := False\<rparr>) (cs_object_relation c r)
         else cs_object_relation c r)"
      using s1(4) [rule_format, of r]
      by (cases "cs_object_relation c r")
         (simp_all add: s2(3) object_relation_missing_or_dead_def)
  qed
  have 4: "\<forall>a. cs_object_attribute_value (fst s2) a =
        (if a \<in> set (object_attribute_value_ids ob) \<and>
            \<not> object_attribute_value_missing_or_dead c a
         then map_option (\<lambda>av. av\<lparr>oav_existency := False\<rparr>) (cs_object_attribute_value c a)
         else cs_object_attribute_value c a)"
  proof
    fix a
    show "cs_object_attribute_value (fst s2) a =
        (if a \<in> set (object_attribute_value_ids ob) \<and>
            \<not> object_attribute_value_missing_or_dead c a
         then map_option (\<lambda>av. av\<lparr>oav_existency := False\<rparr>) (cs_object_attribute_value c a)
         else cs_object_attribute_value c a)"
      using s2(4) [rule_format, of a]
      by (cases "cs_object_attribute_value c a")
         (simp_all add: s1(3) object_attribute_value_missing_or_dead_def)
  qed
  have 5: "inv_object (snd s2) = insert object_id (inv_object ids)"
    by (simp add: s2(5) s1(5))
  have 6: "inv_object_relation (snd s2) = inv_object_relation ids \<union>
       {r \<in> set (object_relation_ids ob). \<not> object_relation_missing_or_dead c r}"
    by (simp add: s2(6) s1(7) mr)
  have 7: "inv_object_attribute_value (snd s2) = inv_object_attribute_value ids \<union>
       {a \<in> set (object_attribute_value_ids ob). \<not> object_attribute_value_missing_or_dead c a}"
    by (simp add: s2(7) s1(6) ma)
  show ?thesis
    by (intro exI [of _ "fst s2"] exI [of _ "snd s2"] conjI 1 2 3 4 5 6 7)
qed

theorem delete_object_cascade_witness:
  "(\<exists>ob. cs_object (current_state
            (insert_events OCED_init [scenario_event_1, scenario_event_2, scenario_event_3]))
          ''o1'' = Some ob \<and> obj_existency ob \<and> object_relation_ids ob = [''r1'']) \<and>
   (\<exists>c' ids'. update_current_state (delete_object ''o1'')
        (current_state
          (insert_events OCED_init [scenario_event_1, scenario_event_2, scenario_event_3]))
        empty_involved_ids = Done (c', ids') \<and>
      map_option rel_existency (cs_object_relation c' ''r1'') = Some False \<and>
      map_option obj_existency (cs_object c' ''o1'') = Some False \<and>
      map_option obj_existency (cs_object c' ''o2'') = Some True \<and>
      inv_object_relation ids' = {''r1''})"
proof -
  let ?c = "current_state
              (insert_events OCED_init [scenario_event_1, scenario_event_2, scenario_event_3])"
  let ?ob = "\<lparr>obj_type = ''Person'', obj_existency = True,
              object_relation_ids = [''r1''], object_attribute_value_ids = []\<rparr>"
  have h1: "cs_object ?c ''o1'' = Some ?ob"
    by (simp add: event_defs scenario_defs add_defs)
  have h2: "obj_existency ?ob" by simp
  have r: "cs_object_relation ?c ''r1'' =
      Some \<lparr>rel_type = ''placed'', rel_existency = True,
            rel_from_object_id = ''o1'', rel_to_object_id = ''o2''\<rparr>"
    by (simp add: event_defs scenario_defs add_defs)
  have o2: "map_option obj_existency (cs_object ?c ''o2'') = Some True"
    by (simp add: event_defs scenario_defs add_defs)
  have h3: "set (object_relation_ids ?ob) \<subseteq> dom (cs_object_relation ?c)"
    using r by (simp add: domI)
  have h4: "set (object_attribute_value_ids ?ob) \<subseteq> dom (cs_object_attribute_value ?c)"
    by simp
  from delete_object_cascade [OF h1 h2 h3 h4, of empty_involved_ids] obtain c' ids' where
    d: "update_current_state (delete_object ''o1'') ?c empty_involved_ids = Done (c', ids')"
      "cs_object c' = (cs_object ?c)(''o1'' \<mapsto> ?ob\<lparr>obj_existency := False\<rparr>)"
      "\<forall>r. cs_object_relation c' r =
        (if r \<in> set (object_relation_ids ?ob) \<and> \<not> object_relation_missing_or_dead ?c r
         then map_option (\<lambda>rel. rel\<lparr>rel_existency := False\<rparr>) (cs_object_relation ?c r)
         else cs_object_relation ?c r)"
      "inv_object_relation ids' = inv_object_relation empty_involved_ids \<union>
       {r \<in> set (object_relation_ids ?ob). \<not> object_relation_missing_or_dead ?c r}"
    by (elim exE conjE) (rule that, assumption+)
  have 1: "map_option rel_existency (cs_object_relation c' ''r1'') = Some False"
    using d(3) [rule_format, of "''r1''"] r by (simp add: object_relation_missing_or_dead_def)
  have 2: "map_option obj_existency (cs_object c' ''o1'') = Some False"
    by (simp add: d(2))
  have 3: "map_option obj_existency (cs_object c' ''o2'') = Some True"
    using o2 by (simp add: d(2))
  have 4: "inv_object_relation ids' = {''r1''}"
    using r by (auto simp: d(4) object_relation_missing_or_dead_def empty_involved_ids_def)
  have a: "\<exists>ob. cs_object ?c ''o1'' = Some ob \<and> obj_existency ob \<and> object_relation_ids ob = [''r1'']"
    using h1 by simp
  from d(1) 1 2 3 4 have b: "\<exists>c' ids'. update_current_state (delete_object ''o1'') ?c
        empty_involved_ids = Done (c', ids') \<and>
      map_option rel_existency (cs_object_relation c' ''r1'') = Some False \<and>
      map_option obj_existency (cs_object c' ''o1'') = Some False \<and>
      map_option obj_existency (cs_object c' ''o2'') = Some True \<and>
      inv_object_relation ids' = {''r1''}"
    by blast
  from a b show ?thesis by (rule conjI)
qed

subsection \<open>Back-references in reachable states\<close>

lemma update_current_state_back_references:
  assumes "update_current_state q c ids = Done s" and "back_references_resolve c"
  shows "back_references_resolve (fst s)"
proof (cases q)
  case (delete_object oid)
  with assms(1) obtain ob where ob: "cs_object c oid = Some ob" "obj_existency ob"
    by (auto split: option.splits if_splits)
  let ?c1 = "c\<lparr>cs_object := (cs_object c)(oid \<mapsto> ob\<lparr>obj_existency := False\<rparr>)\<rparr>"
  let ?ids1 = "ids\<lparr>inv_object := insert oid (inv_object ids)\<rparr>"
  from assms(1) delete_object ob obtain s1 where
    s1: "cascade_object_relations (object_relation_ids ob) ?c1 ?ids1 = Done s1"
    and s2: "cascade_object_attribute_values (object_attribute_value_ids ob) (fst s1) (snd s1) = Done s"
    by (auto simp: Let_def split: outcome.splits)
  from cascade_object_relations_Done [OF s1] cascade_object_attribute_values_Done [OF s2]
  have eq: "cs_object (fst s) = cs_object ?c1"
    "dom (cs_object_relation (fst s)) = dom (cs_object_relation c)"
    "dom (cs_object_attribute_value (fst s)) = dom (cs_object_attribute_value c)"
    by simp_all
  show ?thesis
    unfolding back_references_resolve_def eq
    using assms(2) ob(1) by (auto simp: back_references_resolve_def split: if_splits)
next
  case (create_object_relation rid f t ty)
  with assms show ?thesis
    unfolding back_references_resolve_def
    by (auto simp: event_defs Let_def split: if_splits option.splits) blast+
next
  case (create_object_attribute_value aid oid n v)
  with assms show ?thesis
    unfolding back_references_resolve_def
    by (auto simp: event_defs Let_def split: if_splits option.splits) blast+
qed (use assms in \<open>auto simp: back_references_resolve_def event_defs split: if_splits option.splits,
       blast+\<close>)

lemma precondition_loop_back_references:
  "precondition_loop qs c ids = Done s \<Longrightarrow> back_references_resolve c \<Longrightarrow>
   back_references_resolve (fst s)"
proof (induction qs arbitrary: c ids)
  case Nil
  then show ?case by auto
next
  case (Cons q qs)
  from Cons.prems(1) obtain s1 where
    s1: "update_current_state q c ids = Done s1"
    and rest: "precondition_loop qs (fst s1) (snd s1) = Done s"
    by (auto split: outcome.splits)
  from update_current_state_back_references [OF s1 Cons.prems(2)]
  have "back_references_resolve (fst s1)" .
  from Cons.IH [OF rest this] show ?case .
qed

lemma back_references_step:
  assumes "insert_event m e = Done m'" and "back_references_resolve (current_state m)"
  shows "back_references_resolve (current_state m')"
proof -
  from insert_event_Done [OF assms(1)] obtain s m1 where
    s: "precondition m e = Done s" and c: "current_state m1 = fst s"
    and m': "m' = (log_event m1 e)\<lparr>event_counter := event_counter m1 + 1\<rparr>"
    by blast
  from precondition_loop_back_references [OF precondition_Done_loop [OF s] assms(2)]
  have "back_references_resolve (fst s)" .
  then show ?thesis by (simp add: m' log_event_def c)
qed

lemma back_references_insert_events:
  "back_references_resolve (current_state (insert_events OCED_init es))"
proof (rule insert_events_invariant [where P = "\<lambda>m. back_references_resolve (current_state m)"])
  show "back_references_resolve (current_state OCED_init)"
    by (simp add: back_references_resolve_def OCED_init_def)
next
  fix m e m'
  assume "back_references_resolve (current_state m)" "insert_event m e = Done m'"
  then show "back_references_resolve (current_state m')"
    by (rule back_references_step [rotated])
qed

text \<open>So in a state reached from the fresh model, \<^verbatim>\<open>delete_object\<close> on a live object
  meets the hypotheses of the cascade theorem, and returns.\<close>

lemma delete_object_returns_when_reachable:
  assumes "cs_object (current_state (insert_events OCED_init es)) object_id = Some ob"
    and "obj_existency ob"
  shows "\<not> is_Raised (update_current_state (delete_object object_id)
            (current_state (insert_events OCED_init es)) ids)"
proof -
  let ?c = "current_state (insert_events OCED_init es)"
  from back_references_insert_events [of es] assms(1)
  have r: "set (object_relation_ids ob) \<subseteq> dom (cs_object_relation ?c)"
    and a: "set (object_attribute_value_ids ob) \<subseteq> dom (cs_object_attribute_value ?c)"
    unfolding back_references_resolve_def by blast+
  from cascade_object_relations_result [of "object_relation_ids ob"
      "?c\<lparr>cs_object := (cs_object ?c)(object_id \<mapsto> ob\<lparr>obj_existency := False\<rparr>)\<rparr>"
      "ids\<lparr>inv_object := insert object_id (inv_object ids)\<rparr>"] r
  obtain s1 where s1: "cascade_object_relations (object_relation_ids ob)
      (?c\<lparr>cs_object := (cs_object ?c)(object_id \<mapsto> ob\<lparr>obj_existency := False\<rparr>)\<rparr>)
      (ids\<lparr>inv_object := insert object_id (inv_object ids)\<rparr>) = Done s1"
    and e: "cs_object_attribute_value (fst s1) = cs_object_attribute_value ?c"
    by auto
  from cascade_object_attribute_values_result [of "object_attribute_value_ids ob" "fst s1" "snd s1"]
    a e
  obtain s2 where "cascade_object_attribute_values (object_attribute_value_ids ob)
      (fst s1) (snd s1) = Done s2"
    by auto
  with s1 assms show ?thesis by (simp add: Let_def)
qed

end
